theory Spec2Isabelle
  imports Complex_Main
begin

section \<open>JavaScript values\<close>

text \<open>
  A JavaScript number is a finite value, one of the two infinities, or NaN. The finite
  values are modelled by the rationals (every finite double is a rational; \<open>-0\<close> is
  identified with \<open>0\<close>). The comparison \<open>a < b\<close> of two numbers is false as soon as one
  of them is NaN.
\<close>

datatype jsnum = Fin rat | PosInf | NegInf | NaN

fun js_lt :: "jsnum \<Rightarrow> jsnum \<Rightarrow> bool" where
  "js_lt NaN _ = False"
| "js_lt _ NaN = False"
| "js_lt (Fin a) (Fin b) = (a < b)"
| "js_lt (Fin _) PosInf = True"
| "js_lt (Fin _) NegInf = False"
| "js_lt PosInf _ = False"
| "js_lt NegInf NegInf = False"
| "js_lt NegInf _ = True"

definition js_gt :: "jsnum \<Rightarrow> jsnum \<Rightarrow> bool" where
  "js_gt a b = js_lt b a"

text \<open>Truthiness of a number: everything but \<open>0\<close> and NaN.\<close>

definition truthy_num :: "jsnum \<Rightarrow> bool" where
  "truthy_num x = (x \<noteq> Fin 0 \<and> x \<noteq> NaN)"

text \<open>An integer as a JavaScript number.\<close>

definition num_of_int :: "int \<Rightarrow> jsnum" where
  "num_of_int i = Fin (of_int i)"

subsection \<open>Strings\<close>

text \<open>
  A string is a \<^typ>\<open>string\<close>; a character stands for the UTF-16 code unit of the same
  number, so the model covers the strings over U+0000 to U+00FF, and \<^const>\<open>length\<close> is
  JavaScript's \<open>.length\<close> on them. In this range the white space of \<open>trim()\<close> and of the
  regular expression class \<open>\s\<close> is TAB, LF, VT, FF, CR, SPACE and NBSP.
\<close>

definition is_space :: "char \<Rightarrow> bool" where
  "is_space c = (c \<in> set [CHR 0x09, CHR 0x0A, CHR 0x0B, CHR 0x0C, CHR 0x0D, CHR 0x20, CHR 0xA0])"

definition trim :: "string \<Rightarrow> string" where
  "trim s = rev (dropWhile is_space (rev (dropWhile is_space s)))"

text \<open>
  SQLite's \<open>LOWER()\<close> folds the ASCII letters only; JavaScript's \<open>toLowerCase()\<close> also
  folds the capital letters of the Latin-1 range (U+00C0 to U+00DE without U+00D7).
\<close>

definition lower_ascii :: "char \<Rightarrow> char" where
  "lower_ascii c =
     (case map_of (zip ''ABCDEFGHIJKLMNOPQRSTUVWXYZ'' ''abcdefghijklmnopqrstuvwxyz'') c of
        Some l \<Rightarrow> l
      | None \<Rightarrow> c)"

definition LOWER :: "string \<Rightarrow> string" where
  "LOWER s = map lower_ascii s"

definition latin1_upper :: "char list" where
  "latin1_upper =
     [CHR 0xC0, CHR 0xC1, CHR 0xC2, CHR 0xC3, CHR 0xC4, CHR 0xC5, CHR 0xC6, CHR 0xC7,
      CHR 0xC8, CHR 0xC9, CHR 0xCA, CHR 0xCB, CHR 0xCC, CHR 0xCD, CHR 0xCE, CHR 0xCF,
      CHR 0xD0, CHR 0xD1, CHR 0xD2, CHR 0xD3, CHR 0xD4, CHR 0xD5, CHR 0xD6,
      CHR 0xD8, CHR 0xD9, CHR 0xDA, CHR 0xDB, CHR 0xDC, CHR 0xDD, CHR 0xDE]"

definition latin1_lower :: "char list" where
  "latin1_lower =
     [CHR 0xE0, CHR 0xE1, CHR 0xE2, CHR 0xE3, CHR 0xE4, CHR 0xE5, CHR 0xE6, CHR 0xE7,
      CHR 0xE8, CHR 0xE9, CHR 0xEA, CHR 0xEB, CHR 0xEC, CHR 0xED, CHR 0xEE, CHR 0xEF,
      CHR 0xF0, CHR 0xF1, CHR 0xF2, CHR 0xF3, CHR 0xF4, CHR 0xF5, CHR 0xF6,
      CHR 0xF8, CHR 0xF9, CHR 0xFA, CHR 0xFB, CHR 0xFC, CHR 0xFD, CHR 0xFE]"

definition lower_js :: "char \<Rightarrow> char" where
  "lower_js c =
     (case map_of (zip latin1_upper latin1_lower) c of
        Some l \<Rightarrow> l
      | None \<Rightarrow> lower_ascii c)"

definition toLowerCase :: "string \<Rightarrow> string" where
  "toLowerCase s = map lower_js s"

text \<open>
  \<open>/^[^\s@]+@[^\s@]+\.[^\s@]+$/.test(s)\<close>: the string has no white space and exactly
  one \<open>@\<close>, something before it, and after it a dot that is neither the first nor the
  last character of that part.
\<close>

definition emailRegex_test :: "string \<Rightarrow> bool" where
  "emailRegex_test s =
     (let local = takeWhile (\<lambda>c. c \<noteq> CHR ''@'') s;
          rest = dropWhile (\<lambda>c. c \<noteq> CHR ''@'') s
      in case rest of
           [] \<Rightarrow> False
         | _ # domain \<Rightarrow>
             local \<noteq> [] \<and> CHR ''@'' \<notin> set domain \<and> \<not> list_ex is_space s \<and>
             CHR ''.'' \<in> set (butlast (tl domain)))"

subsection \<open>Doubles\<close>

text \<open>
  The finite numbers of JavaScript are the IEEE 754 doubles: \<open>0\<close> and the rationals
  \<open>\<plusminus> m * 2 ^ p\<close> with \<open>m < 2 ^ 53\<close> and \<open>- 1074 \<le> p \<le> 971\<close>. A \<^const>\<open>Fin\<close> stands for a
  number of JavaScript when its argument is one of them. \<^term>\<open>ndigits b n\<close> is the number of
  digits of \<open>n\<close> in base \<open>b\<close>, and \<^term>\<open>exponent b q\<close>, for a positive \<open>q\<close>, the \<open>e\<close> with
  \<open>b ^ e \<le> q < b ^ (e + 1)\<close>.
\<close>

function ndigits :: "int \<Rightarrow> int \<Rightarrow> int" where
  "ndigits b n = (if n \<le> 0 \<or> b < 2 then 0 else ndigits b (n div b) + 1)"
  by pat_completeness auto
termination
  by (relation "measure (\<lambda>(b, n). nat n)") (auto simp: pos_imp_zdiv_neg_iff intro!: int_div_less_self)

declare ndigits.simps [simp del]

definition pw :: "rat \<Rightarrow> int \<Rightarrow> rat" where
  "pw b e = (if 0 \<le> e then b ^ nat e else 1 / b ^ nat (- e))"

definition exponent :: "int \<Rightarrow> rat \<Rightarrow> int" where
  "exponent b q =
     (if 1 \<le> q then ndigits b \<lfloor>q\<rfloor> - 1 else - ndigits b (\<lceil>1 / q\<rceil> - 1))"

text \<open>
  The number value of a rational: the double nearest to it, the one with the even
  mantissa when two are equally near, and an infinity from \<open>2 ^ 1024 - 2 ^ 970\<close> on. For a
  positive \<open>q\<close> the doubles around it are the multiples of \<open>2 ^ p\<close>, where \<open>p\<close> is 52 below
  the binary exponent of \<open>q\<close>, and \<open>- 1074\<close> for the subnormal ones.
\<close>

definition round_half_even :: "rat \<Rightarrow> int" where
  "round_half_even t =
     (let f = \<lfloor>t\<rfloor>; d = t - of_int f
      in if d < 1 / 2 then f else if 1 / 2 < d then f + 1 else if even f then f else f + 1)"

definition round_pos :: "rat \<Rightarrow> rat" where
  "round_pos q =
     (let p = max (exponent 2 q) (- 1022) - 52
      in of_int (round_half_even (q / pw 2 p)) * pw 2 p)"

definition to_double :: "rat \<Rightarrow> jsnum" where
  "to_double q =
     (if q = 0 then Fin 0
      else if 0 < q then (if pw 2 1024 \<le> round_pos q then PosInf else Fin (round_pos q))
      else (if pw 2 1024 \<le> round_pos (- q) then NegInf else Fin (- round_pos (- q))))"

subsection \<open>\<open>parseInt\<close>\<close>

text \<open>
  \<open>parseInt(v)\<close> with no radix, on the scalar values a request can carry. A string is
  stripped of leading white space, an optional sign and an optional \<open>0x\<close>; the longest
  prefix of digits is read as an integer, whose number value is the result, and there
  being no digit gives NaN.
\<close>

datatype jsval = JUndefined | JNull | JBool bool | JStr string | JNum jsnum

definition digit_val :: "char \<Rightarrow> nat option" where
  "digit_val c =
     map_of (zip ''0123456789abcdefABCDEF''
                 [0, 1, 2, 3, 4, 5, 6, 7, 8, 9, 10, 11, 12, 13, 14, 15, 10, 11, 12, 13, 14, 15]) c"

definition is_digit :: "nat \<Rightarrow> char \<Rightarrow> bool" where
  "is_digit radix c = (case digit_val c of None \<Rightarrow> False | Some d \<Rightarrow> d < radix)"

definition digits_value :: "nat \<Rightarrow> string \<Rightarrow> nat" where
  "digits_value radix ds = foldl (\<lambda>acc c. acc * radix + the (digit_val c)) 0 ds"

definition parseInt_str :: "string \<Rightarrow> jsnum" where
  "parseInt_str s =
     (let s1 = dropWhile is_space s;
          neg = (s1 \<noteq> [] \<and> hd s1 = CHR ''-'');
          s2 = (if s1 \<noteq> [] \<and> (hd s1 = CHR ''-'' \<or> hd s1 = CHR ''+'') then tl s1 else s1);
          hex = (take 2 s2 = ''0x'' \<or> take 2 s2 = ''0X'');
          radix = (if hex then 16 else 10);
          s3 = (if hex then drop 2 s2 else s2);
          ds = takeWhile (is_digit radix) s3
      in if ds = [] then NaN
         else to_double (of_int ((if neg then - 1 else 1) * int (digits_value radix ds))))"

text \<open>
  Any other value is first converted to a string. \<open>undefined\<close>, \<open>null\<close>, the booleans,
  NaN and the infinities print as words and parse to NaN. A finite number \<open>x\<close> prints as
  the shortest decimal numeral that reads back as \<open>x\<close>, the nearest to \<open>x\<close> of these when
  there are several:
  \<^item> in plain notation when the numeral is \<open>0\<close> or of magnitude in \<open>[1e-6, 1e21)\<close>, and
    then the digits before the point are read, which are the integer part of \<open>x\<close>;
  \<^item> otherwise with an exponent, as \<open>d.ddde+n\<close> or \<open>d.ddde-n\<close>, and then the one digit
    before the point (or before the \<open>e\<close>) is read.
  \<^term>\<open>leading_digit x\<close> is that digit for a positive \<open>x\<close>: the first digit of \<open>x\<close>, or the
  next one when the one-digit numeral above \<open>x\<close> reads back as \<open>x\<close> (as \<open>1e+23\<close> does for
  the double below \<open>10 ^ 23\<close>).
\<close>

definition trunc_rat :: "rat \<Rightarrow> int" where
  "trunc_rat q = (if 0 \<le> q then \<lfloor>q\<rfloor> else \<lceil>q\<rceil>)"

definition leading_digit :: "rat \<Rightarrow> int" where
  "leading_digit x =
     (let n = exponent 10 x;
          d = \<lfloor>x / pw 10 n\<rfloor>;
          lo = of_int d * pw 10 n;
          hi = of_int (d + 1) * pw 10 n
      in if to_double hi = Fin x \<and>
            (to_double lo \<noteq> Fin x \<or> hi - x < x - lo \<or> (hi - x = x - lo \<and> even (d + 1)))
         then (if d = 9 then 1 else d + 1)
         else d)"

definition parseInt_num :: "rat \<Rightarrow> jsnum" where
  "parseInt_num q =
     (if q = 0 then Fin 0
      else if (1 / 10 ^ 6 \<le> \<bar>q\<bar> \<or> to_double (1 / 10 ^ 6) = Fin \<bar>q\<bar>) \<and> \<bar>q\<bar> < 10 ^ 21
      then to_double (of_int (trunc_rat q))
      else Fin (of_int ((if q < 0 then - 1 else 1) * leading_digit \<bar>q\<bar>)))"

fun parseInt :: "jsval \<Rightarrow> jsnum" where
  "parseInt JUndefined = NaN"
| "parseInt JNull = NaN"
| "parseInt (JBool _) = NaN"
| "parseInt (JStr s) = parseInt_str s"
| "parseInt (JNum (Fin q)) = parseInt_num q"
| "parseInt (JNum _) = NaN"

section \<open>The \<open>User\<close> model backed by SQLite\<close>

subsection \<open>Data\<close>

text \<open>
  The messages of \<open>validate()\<close> and of the uniqueness check, in the order of the source:
  \<open>O nome e obrigatorio\<close>, \<open>O nome deve ter pelo menos 2 caracteres\<close>,
  \<open>O email e obrigatorio\<close>, \<open>O email deve ser valido\<close>,
  \<open>A idade deve ser um numero entre 0 e 150\<close>, \<open>Este email ja esta cadastrado\<close>.
\<close>

datatype msg = NameRequired | NameTooShort | EmailRequired | EmailInvalid | AgeRange | EmailTaken

text \<open>\<open>interface UserRow\<close>: a row of the table \<open>users\<close>; NULL is \<^const>\<open>None\<close>.\<close>

record user_row =
  row_id :: int
  row_name :: string
  row_email :: string
  row_password :: "string option"
  row_age :: "jsnum option"
  row_is_active :: int
  row_created_at :: string
  row_updated_at :: string

text \<open>
  \<open>interface UserData\<close>, the constructor's argument: an optional field that is
  \<open>undefined\<close> is \<^const>\<open>None\<close>. For \<open>password\<close> and \<open>age\<close>, which may also be \<open>null\<close>,
  \<^const>\<open>None\<close> stands for both: the constructor treats them alike.
\<close>

record user_data =
  d_id :: "int option"
  d_name :: string
  d_email :: string
  d_password :: "string option"
  d_age :: "jsnum option"
  d_is_active :: "bool option"
  d_created_at :: "string option"
  d_updated_at :: "string option"

text \<open>\<open>interface UserCreateInput\<close> and its cast \<open>data as UserData\<close>.\<close>

record user_create_input =
  in_name :: string
  in_email :: string
  in_password :: "string option"
  in_age :: "jsnum option"

definition as_UserData :: "user_create_input \<Rightarrow> user_data" where
  "as_UserData d =
     \<lparr>d_id = None, d_name = in_name d, d_email = in_email d, d_password = in_password d,
      d_age = in_age d, d_is_active = None, d_created_at = None, d_updated_at = None\<rparr>"

text \<open>\<open>class User\<close>: \<open>id\<close> is \<^const>\<open>None\<close> while it is \<open>undefined\<close>.\<close>

record user =
  u_id :: "int option"
  u_name :: string
  u_email :: string
  u_password :: "string option"
  u_age :: "jsnum option"
  u_is_active :: bool
  u_created_at :: string
  u_updated_at :: string

record user_public =
  pub_id :: "int option"
  pub_name :: string
  pub_email :: string
  pub_age :: "jsnum option"
  pub_is_active :: bool
  pub_created_at :: string
  pub_updated_at :: string

record user_list =
  lst_name :: string
  lst_email :: string
  lst_age :: "jsnum option"

record validation_result =
  valid :: bool
  errors :: "msg list"

record create_user_result =
  cr_success :: bool
  cr_user :: "user option"
  cr_errors :: "msg list option"

subsection \<open>The record entity\<close>

text \<open>
  The constructor. \<open>x || y\<close> takes \<open>y\<close> when \<open>x\<close> is falsy (for a string: missing or
  empty), \<open>x ?? y\<close> only when \<open>x\<close> is missing. The two readings of the clock,
  \<open>new Date().toISOString()\<close>, are arguments.
\<close>

definition or_null :: "string option \<Rightarrow> string option" where
  "or_null p = (case p of None \<Rightarrow> None | Some s \<Rightarrow> if s = [] then None else Some s)"

definition or_now :: "string option \<Rightarrow> string \<Rightarrow> string" where
  "or_now t now = (case t of None \<Rightarrow> now | Some s \<Rightarrow> if s = [] then now else s)"

definition new_User :: "user_data \<Rightarrow> string \<Rightarrow> string \<Rightarrow> user" where
  "new_User d now1 now2 =
     \<lparr>u_id = d_id d,
      u_name = d_name d,
      u_email = d_email d,
      u_password = or_null (d_password d),
      u_age = d_age d,
      u_is_active = (case d_is_active d of Some b \<Rightarrow> b | None \<Rightarrow> True),
      u_created_at = or_now (d_created_at d) now1,
      u_updated_at = or_now (d_updated_at d) now2\<rparr>"

definition fromRow :: "user_row \<Rightarrow> user_data" where
  "fromRow r =
     \<lparr>d_id = Some (row_id r),
      d_name = row_name r,
      d_email = row_email r,
      d_password = row_password r,
      d_age = row_age r,
      d_is_active = Some (row_is_active r = 1),
      d_created_at = Some (row_created_at r),
      d_updated_at = Some (row_updated_at r)\<rparr>"

definition validate :: "user \<Rightarrow> validation_result" where
  "validate u =
     (let errs1 =
            (if u_name u = [] \<or> trim (u_name u) = [] then [NameRequired]
             else if length (trim (u_name u)) < 2 then [NameTooShort]
             else []);
          errs2 =
            (if u_email u = [] \<or> trim (u_email u) = [] then [EmailRequired]
             else if \<not> emailRegex_test (u_email u) then [EmailInvalid]
             else []);
          errs3 =
            (case u_age u of
               None \<Rightarrow> []
             | Some a \<Rightarrow> if js_lt a (Fin 0) \<or> js_gt a (Fin 150) then [AgeRange] else []);
          errs = errs1 @ errs2 @ errs3
      in \<lparr>valid = (length errs = 0), errors = errs\<rparr>)"

definition toPublicJSON :: "user \<Rightarrow> user_public" where
  "toPublicJSON u =
     \<lparr>pub_id = u_id u,
      pub_name = u_name u,
      pub_email = u_email u,
      pub_age = u_age u,
      pub_is_active = u_is_active u,
      pub_created_at = u_created_at u,
      pub_updated_at = u_updated_at u\<rparr>"

definition toListJSON :: "user \<Rightarrow> user_list" where
  "toListJSON u = \<lparr>lst_name = u_name u, lst_email = u_email u, lst_age = u_age u\<rparr>"

subsection \<open>The table \<open>users\<close>\<close>

text \<open>
  The database is the table's rows in rowid order and the counter that \<open>AUTOINCREMENT\<close>
  keeps of the largest rowid ever used. The statements of the model are functions on it.
  What the model takes from SQLite and sql.js:
  \<^item> \<open>id INTEGER PRIMARY KEY AUTOINCREMENT\<close>: an insert takes a rowid one larger than
    every rowid so far;
  \<^item> \<open>email TEXT NOT NULL UNIQUE\<close>: a statement that would leave two rows with the same
    email fails, and sql.js throws; a failed statement changes nothing;
  \<^item> a number bound to a parameter is stored as it is, except NaN, which SQLite stores
    as NULL;
  \<^item> \<open>LOWER(email) = LOWER(?)\<close> compares the ASCII-folded strings, and \<open>id = ?\<close> is
    numeric equality, false for a parameter that is NaN (bound as NULL);
  \<^item> a text is read back as it was written (sql.js reads a text up to its first U+0000).
  \<open>persistDb()\<close> writes the database to its file after each \<open>save()\<close>; the file is not part
  of the model.
\<close>

record db =
  db_rows :: "user_row list"
  db_seq :: int

definition empty_db :: db where
  "empty_db = \<lparr>db_rows = [], db_seq = 0\<rparr>"

definition bind_num :: "jsnum option \<Rightarrow> jsnum option" where
  "bind_num a = (case a of Some NaN \<Rightarrow> None | _ \<Rightarrow> a)"

definition next_rowid :: "db \<Rightarrow> int" where
  "next_rowid st = foldr max (map row_id (db_rows st)) (db_seq st) + 1"

text \<open>\<open>INSERT INTO users (name, email, password, age, is_active, created_at, updated_at)\<close>,
  with the new row's \<open>last_insert_rowid()\<close>; \<^const>\<open>None\<close> when the statement fails.\<close>

definition sql_insert ::
  "db \<Rightarrow> string \<Rightarrow> string \<Rightarrow> string option \<Rightarrow> jsnum option \<Rightarrow> int \<Rightarrow> string \<Rightarrow> string \<Rightarrow>
   (int \<times> db) option" where
  "sql_insert st n e p a act c upd =
     (if list_ex (\<lambda>r. row_email r = e) (db_rows st) then None
      else
        let i = next_rowid st;
            r = \<lparr>row_id = i, row_name = n, row_email = e, row_password = p,
                 row_age = bind_num a, row_is_active = act, row_created_at = c,
                 row_updated_at = upd\<rparr>
        in Some (i, st\<lparr>db_rows := db_rows st @ [r], db_seq := i\<rparr>))"

text \<open>\<open>UPDATE users SET name, email, password, age, is_active, updated_at WHERE id = ?\<close>.\<close>

definition sql_update ::
  "db \<Rightarrow> string \<Rightarrow> string \<Rightarrow> string option \<Rightarrow> jsnum option \<Rightarrow> int \<Rightarrow> string \<Rightarrow> int \<Rightarrow>
   db option" where
  "sql_update st n e p a act upd i =
     (if list_ex (\<lambda>r. row_id r = i) (db_rows st) \<and>
         list_ex (\<lambda>r. row_id r \<noteq> i \<and> row_email r = e) (db_rows st)
      then None
      else
        Some (st\<lparr>db_rows :=
          map (\<lambda>r. if row_id r = i
                    then r\<lparr>row_name := n, row_email := e, row_password := p,
                           row_age := bind_num a, row_is_active := act,
                           row_updated_at := upd\<rparr>
                    else r)
              (db_rows st)\<rparr>))"

text \<open>\<open>SELECT * FROM users WHERE is_active = 1\<close>\<close>

definition sql_select_active :: "db \<Rightarrow> user_row list" where
  "sql_select_active st = filter (\<lambda>r. row_is_active r = 1) (db_rows st)"

text \<open>\<open>SELECT * FROM users WHERE id = ? AND is_active = 1\<close>\<close>

definition sql_select_by_id :: "db \<Rightarrow> jsnum \<Rightarrow> user_row list" where
  "sql_select_by_id st x =
     filter (\<lambda>r. num_of_int (row_id r) = x \<and> row_is_active r = 1) (db_rows st)"

text \<open>\<open>SELECT * FROM users WHERE LOWER(email) = LOWER(?) AND is_active = 1\<close>\<close>

definition sql_select_by_email :: "db \<Rightarrow> string \<Rightarrow> user_row list" where
  "sql_select_by_email st e =
     filter (\<lambda>r. LOWER (row_email r) = LOWER e \<and> row_is_active r = 1) (db_rows st)"

text \<open>\<open>SELECT COUNT(*) as count FROM users WHERE LOWER(email) = LOWER(?)\<close>\<close>

definition sql_count_email :: "db \<Rightarrow> string \<Rightarrow> nat" where
  "sql_count_email st e = length (filter (\<lambda>r. LOWER (row_email r) = LOWER e) (db_rows st))"

text \<open>\<open>SELECT COUNT(*) as count FROM users WHERE is_active = 1\<close>\<close>

definition sql_count_active :: "db \<Rightarrow> nat" where
  "sql_count_active st = length (filter (\<lambda>r. row_is_active r = 1) (db_rows st))"

subsection \<open>The repository\<close>

text \<open>
  \<open>save()\<close>: the record gets the clock's reading as \<open>updated_at\<close>; with a truthy \<open>id\<close>
  (neither \<open>undefined\<close> nor \<open>0\<close>) its row is updated, otherwise a row is inserted and the
  record takes the new rowid. The result is the record and the database, or \<^const>\<open>None\<close>
  when the statement throws.
\<close>

definition save :: "db \<Rightarrow> user \<Rightarrow> string \<Rightarrow> (user \<times> db) option" where
  "save st u now =
     (let u1 = u\<lparr>u_updated_at := now\<rparr>
      in if u_id u1 \<noteq> None \<and> u_id u1 \<noteq> Some 0 then
           (case sql_update st (u_name u1) (u_email u1) (u_password u1) (u_age u1)
                   (if u_is_active u1 then 1 else 0) (u_updated_at u1) (the (u_id u1)) of
              None \<Rightarrow> None
            | Some st' \<Rightarrow> Some (u1, st'))
         else
           (case sql_insert st (u_name u1) (u_email u1) (u_password u1) (u_age u1)
                   (if u_is_active u1 then 1 else 0) (u_created_at u1) (u_updated_at u1) of
              None \<Rightarrow> None
            | Some (i, st') \<Rightarrow> Some (u1\<lparr>u_id := Some i\<rparr>, st')))"

text \<open>
  The reading operations build a \<open>User\<close> from each row, and the constructor reads the
  clock where a row's timestamp is empty: \<open>clk\<close> gives the readings for the record at each
  position of \<open>findAll()\<close>'s result.
\<close>

definition findAll :: "db \<Rightarrow> (nat \<Rightarrow> string \<times> string) \<Rightarrow> user list" where
  "findAll st clk =
     map (\<lambda>(k, r). new_User (fromRow r) (fst (clk k)) (snd (clk k)))
         (enumerate 0 (sql_select_active st))"

definition findById :: "db \<Rightarrow> jsnum \<Rightarrow> string \<Rightarrow> string \<Rightarrow> user option" where
  "findById st x now1 now2 =
     (case sql_select_by_id st x of
        [] \<Rightarrow> None
      | r # _ \<Rightarrow> Some (new_User (fromRow r) now1 now2))"

definition findByEmail :: "db \<Rightarrow> string \<Rightarrow> string \<Rightarrow> string \<Rightarrow> user option" where
  "findByEmail st e now1 now2 =
     (case sql_select_by_email st e of
        [] \<Rightarrow> None
      | r # _ \<Rightarrow> Some (new_User (fromRow r) now1 now2))"

definition emailExists :: "db \<Rightarrow> string \<Rightarrow> bool" where
  "emailExists st e = (sql_count_email st e > 0)"

text \<open>\<open>User.create(data)\<close>; \<open>now1\<close>, \<open>now2\<close> are the constructor's readings of the clock and
  \<open>now3\<close> is \<open>save()\<close>'s.\<close>

definition create ::
  "db \<Rightarrow> user_create_input \<Rightarrow> string \<Rightarrow> string \<Rightarrow> string \<Rightarrow> (create_user_result \<times> db) option"
  where
  "create st d now1 now2 now3 =
     (let u = new_User (as_UserData d) now1 now2;
          validation = validate u
      in if \<not> valid validation then
           Some (\<lparr>cr_success = False, cr_user = None, cr_errors = Some (errors validation)\<rparr>, st)
         else if emailExists st (u_email u) then
           Some (\<lparr>cr_success = False, cr_user = None, cr_errors = Some [EmailTaken]\<rparr>, st)
         else
           (case save st u now3 of
              None \<Rightarrow> None
            | Some (u', st') \<Rightarrow>
                Some (\<lparr>cr_success = True, cr_user = Some u', cr_errors = None\<rparr>, st')))"

text \<open>\<open>User.delete(id)\<close>\<close>

definition delete ::
  "db \<Rightarrow> jsnum \<Rightarrow> string \<Rightarrow> string \<Rightarrow> string \<Rightarrow> (bool \<times> db) option" where
  "delete st x now1 now2 now3 =
     (case findById st x now1 now2 of
        Some u \<Rightarrow>
          (case save st (u\<lparr>u_is_active := False\<rparr>) now3 of
             None \<Rightarrow> None
           | Some (_, st') \<Rightarrow> Some (True, st'))
      | None \<Rightarrow> Some (False, st))"

definition count :: "db \<Rightarrow> nat" where
  "count st = sql_count_active st"

section \<open>The controller's update\<close>

text \<open>
  \<open>UserController.update\<close>: \<open>req.params.id\<close> is a string; \<open>name\<close> and \<open>email\<close> of the
  request's body are strings, \<open>null\<close> or missing, and \<open>age\<close> is any scalar. A response is
  the status with what its body carries; an exception ends in the handler's 500.
\<close>

datatype jstext = TUndefined | TNull | TStr string

record update_body =
  b_name :: jstext
  b_email :: jstext
  b_age :: jsval

datatype response =
    NotFound404
  | Conflict400 msg
  | Invalid400 "msg list"
  | Ok200 user_public
  | Error500

fun truthy_text :: "jstext \<Rightarrow> bool" where
  "truthy_text (TStr s) = (s \<noteq> [])"
| "truthy_text _ = False"

fun str_of :: "jstext \<Rightarrow> string" where
  "str_of (TStr s) = s"
| "str_of _ = []"

definition update ::
  "db \<Rightarrow> string \<Rightarrow> update_body \<Rightarrow> string \<Rightarrow> string \<Rightarrow> string \<Rightarrow> response \<times> db" where
  "update st id_param body now1 now2 now3 =
     (case findById st (parseInt_str id_param) now1 now2 of
        None \<Rightarrow> (NotFound404, st)
      | Some user \<Rightarrow>
          if truthy_text (b_email body) \<and> str_of (b_email body) \<noteq> u_email user \<and>
             emailExists st (str_of (b_email body))
          then (Conflict400 EmailTaken, st)
          else
            let user1 = (if truthy_text (b_name body)
                         then user\<lparr>u_name := str_of (b_name body)\<rparr> else user);
                user2 = (if truthy_text (b_email body)
                         then user1\<lparr>u_email := str_of (b_email body)\<rparr> else user1);
                user3 = (if b_age body \<noteq> JUndefined
                         then user2\<lparr>u_age := Some (parseInt (b_age body))\<rparr> else user2);
                validation = validate user3
            in if \<not> valid validation then (Invalid400 (errors validation), st)
               else
                 (case save st user3 now3 of
                    None \<Rightarrow> (Error500, st)
                  | Some (user4, st') \<Rightarrow> (Ok200 (toPublicJSON user4), st')))"

section \<open>The \<open>User\<close> model kept in memory\<close>

text \<open>
  The JavaScript variant keeps the records in the array \<open>users\<close> and numbers them from
  the counter \<open>nextId\<close>. Its records have the fields of \<^typ>\<open>user\<close>; the constructor
  always sets \<open>id\<close>. The array holds the objects themselves: what \<open>findById\<close> returns is
  the element of the array, and \<open>delete\<close> changes it in place.
\<close>

record mem =
  users :: "user list"
  nextId :: int

definition empty_mem :: mem where
  "empty_mem = \<lparr>users = [], nextId = 1\<rparr>"

text \<open>\<open>data.age || null\<close>: a falsy number, \<open>0\<close> or NaN, becomes \<open>null\<close>.\<close>

definition age_or_null :: "jsnum option \<Rightarrow> jsnum option" where
  "age_or_null a = (case a of None \<Rightarrow> None | Some x \<Rightarrow> if truthy_num x then Some x else None)"

text \<open>\<open>this.id = data.id || nextId++\<close>\<close>

definition new_User_mem :: "mem \<Rightarrow> user_data \<Rightarrow> string \<Rightarrow> string \<Rightarrow> user \<times> mem" where
  "new_User_mem ms d now1 now2 =
     (let (i, ms') =
            (if d_id d \<noteq> None \<and> d_id d \<noteq> Some 0 then (the (d_id d), ms)
             else (nextId ms, ms\<lparr>nextId := nextId ms + 1\<rparr>))
      in (\<lparr>u_id = Some i,
           u_name = d_name d,
           u_email = d_email d,
           u_password = or_null (d_password d),
           u_age = age_or_null (d_age d),
           u_is_active = (case d_is_active d of Some b \<Rightarrow> b | None \<Rightarrow> True),
           u_created_at = or_now (d_created_at d) now1,
           u_updated_at = or_now (d_updated_at d) now2\<rparr>, ms'))"

text \<open>\<open>validate()\<close> of the variant; \<open>typeof this.age !== 'number'\<close> is false of every
  number, NaN included.\<close>

definition validate_mem :: "user \<Rightarrow> validation_result" where
  "validate_mem u =
     (let errs1 =
            (if u_name u = [] \<or> trim (u_name u) = [] then [NameRequired]
             else if length (trim (u_name u)) < 2 then [NameTooShort]
             else []);
          errs2 =
            (if u_email u = [] \<or> trim (u_email u) = [] then [EmailRequired]
             else if \<not> emailRegex_test (u_email u) then [EmailInvalid]
             else []);
          errs3 =
            (case u_age u of
               None \<Rightarrow> []
             | Some a \<Rightarrow>
                 if False \<or> js_lt a (Fin 0) \<or> js_gt a (Fin 150) then [AgeRange] else []);
          errs = errs1 @ errs2 @ errs3
      in \<lparr>valid = (length errs = 0), errors = errs\<rparr>)"

fun findIndex :: "('a \<Rightarrow> bool) \<Rightarrow> 'a list \<Rightarrow> nat option" where
  "findIndex P [] = None"
| "findIndex P (x # xs) =
     (if P x then Some 0 else (case findIndex P xs of None \<Rightarrow> None | Some k \<Rightarrow> Some (Suc k)))"

definition save_mem :: "mem \<Rightarrow> user \<Rightarrow> string \<Rightarrow> user \<times> mem" where
  "save_mem ms u now =
     (let u1 = u\<lparr>u_updated_at := now\<rparr>
      in case findIndex (\<lambda>v. u_id v = u_id u1) (users ms) of
           Some k \<Rightarrow> (u1, ms\<lparr>users := (users ms)[k := u1]\<rparr>)
         | None \<Rightarrow> (u1, ms\<lparr>users := users ms @ [u1]\<rparr>))"

definition findAll_mem :: "mem \<Rightarrow> user list" where
  "findAll_mem ms = filter u_is_active (users ms)"

definition id_is :: "jsnum \<Rightarrow> user \<Rightarrow> bool" where
  "id_is x u = (case u_id u of None \<Rightarrow> False | Some i \<Rightarrow> num_of_int i = x)"

definition findById_mem :: "mem \<Rightarrow> jsnum \<Rightarrow> user option" where
  "findById_mem ms x = find (\<lambda>u. id_is x u \<and> u_is_active u) (users ms)"

definition findByEmail_mem :: "mem \<Rightarrow> string \<Rightarrow> user option" where
  "findByEmail_mem ms e =
     find (\<lambda>u. toLowerCase (u_email u) = toLowerCase e \<and> u_is_active u) (users ms)"

definition emailExists_mem :: "mem \<Rightarrow> string \<Rightarrow> bool" where
  "emailExists_mem ms e = list_ex (\<lambda>u. toLowerCase (u_email u) = toLowerCase e) (users ms)"

definition create_mem ::
  "mem \<Rightarrow> user_create_input \<Rightarrow> string \<Rightarrow> string \<Rightarrow> string \<Rightarrow> create_user_result \<times> mem" where
  "create_mem ms d now1 now2 now3 =
     (let (u, ms1) = new_User_mem ms (as_UserData d) now1 now2;
          validation = validate_mem u
      in if \<not> valid validation then
           (\<lparr>cr_success = False, cr_user = None, cr_errors = Some (errors validation)\<rparr>, ms1)
         else if emailExists_mem ms1 (u_email u) then
           (\<lparr>cr_success = False, cr_user = None, cr_errors = Some [EmailTaken]\<rparr>, ms1)
         else
           (let (u', ms2) = save_mem ms1 u now3
            in (\<lparr>cr_success = True, cr_user = Some u', cr_errors = None\<rparr>, ms2)))"

definition delete_mem :: "mem \<Rightarrow> jsnum \<Rightarrow> string \<Rightarrow> bool \<times> mem" where
  "delete_mem ms x now =
     (case findIndex (\<lambda>u. id_is x u \<and> u_is_active u) (users ms) of
        Some k \<Rightarrow>
          (True,
           ms\<lparr>users := (users ms)[k := (users ms ! k)\<lparr>u_is_active := False, u_updated_at := now\<rparr>]\<rparr>)
      | None \<Rightarrow> (False, ms))"

definition count_mem :: "mem \<Rightarrow> nat" where
  "count_mem ms = length (filter u_is_active (users ms))"

text \<open>
  \<open>UserController.update\<close> of the JavaScript controller, on this model. The record it
  finds is the element of the array itself, so the assignments to its fields, and
  \<open>save()\<close>'s to \<open>updated_at\<close>, are made in the array, also when \<open>validate()\<close> then
  rejects the record. The list of records is the array as long as no object is in it
  twice, which \<open>save()\<close> can bring about only where two records have the same \<open>id\<close>.
\<close>

definition update_mem :: "mem \<Rightarrow> string \<Rightarrow> update_body \<Rightarrow> string \<Rightarrow> response \<times> mem" where
  "update_mem ms id_param body now =
     (case findIndex (\<lambda>u. id_is (parseInt_str id_param) u \<and> u_is_active u) (users ms) of
        None \<Rightarrow> (NotFound404, ms)
      | Some k \<Rightarrow>
          let user = users ms ! k
          in if truthy_text (b_email body) \<and> str_of (b_email body) \<noteq> u_email user \<and>
                emailExists_mem ms (str_of (b_email body))
             then (Conflict400 EmailTaken, ms)
             else
               let user1 = (if truthy_text (b_name body)
                            then user\<lparr>u_name := str_of (b_name body)\<rparr> else user);
                   user2 = (if truthy_text (b_email body)
                            then user1\<lparr>u_email := str_of (b_email body)\<rparr> else user1);
                   user3 = (if b_age body \<noteq> JUndefined
                            then user2\<lparr>u_age := Some (parseInt (b_age body))\<rparr> else user2);
                   validation = validate_mem user3
               in if \<not> valid validation
                  then (Invalid400 (errors validation), ms\<lparr>users := (users ms)[k := user3]\<rparr>)
                  else
                    (let (user4, ms') =
                           save_mem (ms\<lparr>users := (users ms)[k := user3\<lparr>u_updated_at := now\<rparr>]\<rparr>)
                             user3 now
                     in (Ok200 (toPublicJSON user4), ms')))"

section \<open>Stores the operations can reach\<close>

text \<open>
  What holds of the table however the operations are called: the primary key is unique,
  rowids are positive, no two emails are equal after case folding, no stored password is
  the empty string and no stored age is NaN.
\<close>

definition store_inv :: "db \<Rightarrow> bool" where
  "store_inv st =
     (distinct (map row_id (db_rows st)) \<and>
      0 \<le> db_seq st \<and>
      list_all (\<lambda>r. 0 < row_id r) (db_rows st) \<and>
      distinct (map (\<lambda>r. LOWER (row_email r)) (db_rows st)) \<and>
      list_all (\<lambda>r. row_password r \<noteq> Some []) (db_rows st) \<and>
      list_all (\<lambda>r. row_age r \<noteq> Some NaN) (db_rows st))"

inductive reachable :: "db \<Rightarrow> bool" where
  reach_empty: "reachable empty_db"
| reach_create: "reachable st \<Longrightarrow> create st d now1 now2 now3 = Some (res, st') \<Longrightarrow> reachable st'"
| reach_delete: "reachable st \<Longrightarrow> delete st x now1 now2 now3 = Some (b, st') \<Longrightarrow> reachable st'"
| reach_update: "reachable st \<Longrightarrow> update st i body now1 now2 now3 = (resp, st') \<Longrightarrow> reachable st'"

section \<open>What the operations write\<close>

text \<open>
  The effect of each writing operation on the table, named so that the properties can
  state it: the row \<open>save()\<close> inserts for a new record, the change \<open>delete\<close> makes to
  the row of a given id, and the record and row that the controller's update builds from
  the stored record and the request's body.
\<close>

definition new_row :: "db \<Rightarrow> user \<Rightarrow> string \<Rightarrow> user_row" where
  "new_row st u now =
     \<lparr>row_id = next_rowid st, row_name = u_name u, row_email = u_email u,
      row_password = u_password u, row_age = bind_num (u_age u),
      row_is_active = (if u_is_active u then 1 else 0),
      row_created_at = u_created_at u, row_updated_at = now\<rparr>"

definition deactivate :: "jsnum \<Rightarrow> string \<Rightarrow> user_row \<Rightarrow> user_row" where
  "deactivate x now r =
     (if num_of_int (row_id r) = x then r\<lparr>row_is_active := 0, row_updated_at := now\<rparr> else r)"

definition apply_body :: "user \<Rightarrow> update_body \<Rightarrow> user" where
  "apply_body user body =
     (let user1 = (if truthy_text (b_name body)
                   then user\<lparr>u_name := str_of (b_name body)\<rparr> else user);
          user2 = (if truthy_text (b_email body)
                   then user1\<lparr>u_email := str_of (b_email body)\<rparr> else user1)
      in if b_age body \<noteq> JUndefined
         then user2\<lparr>u_age := Some (parseInt (b_age body))\<rparr> else user2)"

definition email_conflict :: "db \<Rightarrow> user \<Rightarrow> update_body \<Rightarrow> bool" where
  "email_conflict st user body =
     (truthy_text (b_email body) \<and> str_of (b_email body) \<noteq> u_email user \<and>
      emailExists st (str_of (b_email body)))"

definition write_row :: "jsnum \<Rightarrow> user \<Rightarrow> string \<Rightarrow> user_row \<Rightarrow> user_row" where
  "write_row x u now r =
     (if num_of_int (row_id r) = x
      then r\<lparr>row_name := u_name u, row_email := u_email u, row_age := bind_num (u_age u),
             row_updated_at := now\<rparr>
      else r)"

text \<open>The record \<open>create\<close> builds from its input before validating it.\<close>

definition candidate :: "user_create_input \<Rightarrow> string \<Rightarrow> string \<Rightarrow> user" where
  "candidate d now1 now2 = new_User (as_UserData d) now1 now2"

text \<open>The fields of a record that the operations show, timestamps aside.\<close>

definition seen :: "user \<Rightarrow> int option \<times> string \<times> string \<times> jsnum option \<times> bool" where
  "seen u = (u_id u, u_name u, u_email u, u_age u, u_is_active u)"

section \<open>Calling the two variants\<close>

text \<open>
  A call of one of the static operations, and what a caller sees of its result: of a
  record the fields \<^const>\<open>seen\<close> gives, of \<open>create\<close> the success flag, the record and
  the messages. \<open>Thrown\<close> is an exception.
\<close>

datatype call =
    Create user_create_input
  | FindAll
  | FindById jsnum
  | FindByEmail string
  | EmailExists string
  | Delete jsnum
  | Count

datatype outcome =
    Created bool "(int option \<times> string \<times> string \<times> jsnum option \<times> bool) option" "msg list option"
  | Listed "(int option \<times> string \<times> string \<times> jsnum option \<times> bool) list"
  | Found "(int option \<times> string \<times> string \<times> jsnum option \<times> bool) option"
  | Answer bool
  | Counted nat
  | Thrown

definition created :: "create_user_result \<Rightarrow> outcome" where
  "created res = Created (cr_success res) (map_option seen (cr_user res)) (cr_errors res)"

text \<open>
  One call on each variant; \<open>clk\<close> gives the readings of the clock that the call makes,
  in order.
\<close>

definition step_sql :: "(nat \<Rightarrow> string) \<Rightarrow> db \<Rightarrow> call \<Rightarrow> outcome \<times> db" where
  "step_sql clk st c =
     (case c of
        Create d \<Rightarrow>
          (case create st d (clk 0) (clk 1) (clk 2) of
             None \<Rightarrow> (Thrown, st)
           | Some (res, st') \<Rightarrow> (created res, st'))
      | FindAll \<Rightarrow> (Listed (map seen (findAll st (\<lambda>k. (clk (2 * k), clk (2 * k + 1))))), st)
      | FindById x \<Rightarrow> (Found (map_option seen (findById st x (clk 0) (clk 1))), st)
      | FindByEmail e \<Rightarrow> (Found (map_option seen (findByEmail st e (clk 0) (clk 1))), st)
      | EmailExists e \<Rightarrow> (Answer (emailExists st e), st)
      | Delete x \<Rightarrow>
          (case delete st x (clk 0) (clk 1) (clk 2) of
             None \<Rightarrow> (Thrown, st)
           | Some (b, st') \<Rightarrow> (Answer b, st'))
      | Count \<Rightarrow> (Counted (count st), st))"

definition step_mem :: "(nat \<Rightarrow> string) \<Rightarrow> mem \<Rightarrow> call \<Rightarrow> outcome \<times> mem" where
  "step_mem clk ms c =
     (case c of
        Create d \<Rightarrow>
          (let (res, ms') = create_mem ms d (clk 0) (clk 1) (clk 2) in (created res, ms'))
      | FindAll \<Rightarrow> (Listed (map seen (findAll_mem ms)), ms)
      | FindById x \<Rightarrow> (Found (map_option seen (findById_mem ms x)), ms)
      | FindByEmail e \<Rightarrow> (Found (map_option seen (findByEmail_mem ms e)), ms)
      | EmailExists e \<Rightarrow> (Answer (emailExists_mem ms e), ms)
      | Delete x \<Rightarrow> (let (b, ms') = delete_mem ms x (clk 0) in (Answer b, ms'))
      | Count \<Rightarrow> (Counted (count_mem ms), ms))"

text \<open>A sequence of calls; the \<open>n\<close>-th call reads the clock \<open>clk n\<close>.\<close>

fun run_sql :: "(nat \<Rightarrow> nat \<Rightarrow> string) \<Rightarrow> nat \<Rightarrow> db \<Rightarrow> call list \<Rightarrow> outcome list" where
  "run_sql clk n st [] = []"
| "run_sql clk n st (c # cs) =
     fst (step_sql (clk n) st c) # run_sql clk (Suc n) (snd (step_sql (clk n) st c)) cs"

fun run_mem :: "(nat \<Rightarrow> nat \<Rightarrow> string) \<Rightarrow> nat \<Rightarrow> mem \<Rightarrow> call list \<Rightarrow> outcome list" where
  "run_mem clk n ms [] = []"
| "run_mem clk n ms (c # cs) =
     fst (step_mem (clk n) ms c) # run_mem clk (Suc n) (snd (step_mem (clk n) ms c)) cs"

text \<open>
  The sequences of calls on which the two variants are compared. An age is neither \<open>0\<close>
  nor NaN and an email has no capital letter outside ASCII (\<open>toLowerCase()\<close> and
  \<open>LOWER()\<close> fold it alike). No \<open>create\<close> succeeds after a \<open>create\<close> was rejected:
  \<open>rejected\<close> records that one was, in the run on the SQLite variant.
\<close>

definition plain_case :: "string \<Rightarrow> bool" where
  "plain_case s = (toLowerCase s = LOWER s)"

fun call_ok :: "call \<Rightarrow> bool" where
  "call_ok (Create d) =
     (in_age d \<noteq> Some (Fin 0) \<and> in_age d \<noteq> Some NaN \<and> plain_case (in_email d))"
| "call_ok (FindByEmail e) = plain_case e"
| "call_ok (EmailExists e) = plain_case e"
| "call_ok _ = True"

fun is_create :: "call \<Rightarrow> bool" where
  "is_create (Create d) = True"
| "is_create _ = False"

fun succeeded :: "outcome \<Rightarrow> bool" where
  "succeeded (Created ok u errs) = ok"
| "succeeded _ = False"

fun admissible :: "(nat \<Rightarrow> nat \<Rightarrow> string) \<Rightarrow> nat \<Rightarrow> db \<Rightarrow> bool \<Rightarrow> call list \<Rightarrow> bool" where
  "admissible clk n st rejected [] = True"
| "admissible clk n st rejected (c # cs) =
     (call_ok c \<and>
      \<not> (is_create c \<and> succeeded (fst (step_sql (clk n) st c)) \<and> rejected) \<and>
      admissible clk (Suc n) (snd (step_sql (clk n) st c))
        (rejected \<or> (is_create c \<and> \<not> succeeded (fst (step_sql (clk n) st c)))) cs)"

text \<open>
  The relation between the two stores that the calls maintain: the rows of the table and
  the records of the array show the same fields, position by position; the counter
  \<open>nextId\<close> is the rowid the table would assign next, as long as no \<open>create\<close> was rejected;
  and the stored emails have no capital letter outside ASCII.
\<close>

definition shows_row :: "user_row \<Rightarrow> user \<Rightarrow> bool" where
  "shows_row r u =
     (seen u = (Some (row_id r), row_name r, row_email r, row_age r, row_is_active r = 1))"

definition sim :: "bool \<Rightarrow> db \<Rightarrow> mem \<Rightarrow> bool" where
  "sim rejected st ms =
     (list_all2 shows_row (db_rows st) (users ms) \<and>
      (\<not> rejected \<longrightarrow> nextId ms = next_rowid st) \<and>
      store_inv st \<and>
      list_all (\<lambda>r. plain_case (row_email r)) (db_rows st))"

text \<open>The record that \<open>create\<close> of the in-memory variant constructs from its input.\<close>

definition born :: "mem \<Rightarrow> user_create_input \<Rightarrow> string \<Rightarrow> string \<Rightarrow> user" where
  "born ms d now1 now2 = fst (new_User_mem ms (as_UserData d) now1 now2)"

text \<open>
  What holds of the array however \<open>create\<close>, \<open>delete\<close> and the controller's update of
  the in-memory variant are called: the identifiers of the stored records are distinct
  and below \<open>nextId\<close>.
\<close>

definition mem_inv :: "mem \<Rightarrow> bool" where
  "mem_inv ms =
     (distinct (map u_id (users ms)) \<and>
      list_all (\<lambda>u. case u_id u of None \<Rightarrow> False | Some k \<Rightarrow> k < nextId ms) (users ms))"

inductive reachable_mem :: "mem \<Rightarrow> bool" where
  reach_mem_empty: "reachable_mem empty_mem"
| reach_mem_create: "reachable_mem ms \<Longrightarrow> reachable_mem (snd (create_mem ms d now1 now2 now3))"
| reach_mem_delete: "reachable_mem ms \<Longrightarrow> reachable_mem (snd (delete_mem ms x now))"
| reach_mem_update: "reachable_mem ms \<Longrightarrow> reachable_mem (snd (update_mem ms i body now))"

section \<open>Sample data\<close>

text \<open>
  Two inputs of \<open>create\<close> (the first is the one of the specification's scenario), two
  readings of the clock, and the databases that creating both records and then deleting
  the second one produces from the empty one.
\<close>

definition t0 :: string where
  "t0 = ''2024-01-01T10:00:00.000Z''"

definition t1 :: string where
  "t1 = ''2024-01-02T10:00:00.000Z''"

definition ana_input :: user_create_input where
  "ana_input =
     \<lparr>in_name = ''Ana Silva'', in_email = ''ana@test.com'', in_password = None,
      in_age = Some (Fin 30)\<rparr>"

definition bia_input :: user_create_input where
  "bia_input =
     \<lparr>in_name = ''Bia Souza'', in_email = ''Bia@Test.com'', in_password = Some ''s3cret'',
      in_age = None\<rparr>"

definition ana_row :: user_row where
  "ana_row =
     \<lparr>row_id = 1, row_name = ''Ana Silva'', row_email = ''ana@test.com'',
      row_password = None, row_age = Some (Fin 30), row_is_active = 1,
      row_created_at = t0, row_updated_at = t0\<rparr>"

definition bia_row :: user_row where
  "bia_row =
     \<lparr>row_id = 2, row_name = ''Bia Souza'', row_email = ''Bia@Test.com'',
      row_password = Some ''s3cret'', row_age = None, row_is_active = 1,
      row_created_at = t0, row_updated_at = t0\<rparr>"

definition db_ana :: db where
  "db_ana = \<lparr>db_rows = [ana_row], db_seq = 1\<rparr>"

definition db_two :: db where
  "db_two = \<lparr>db_rows = [ana_row, bia_row], db_seq = 2\<rparr>"

definition db_deleted :: db where
  "db_deleted =
     \<lparr>db_rows = [ana_row, bia_row\<lparr>row_is_active := 0, row_updated_at := t1\<rparr>], db_seq = 2\<rparr>"

text \<open>
  A third input, whose email begins with the capital letter U+00C9 (E with acute accent),
  and the database that creating it after the first record produces.
\<close>

definition eva_input :: user_create_input where
  "eva_input =
     \<lparr>in_name = ''Eva Lima'', in_email = CHR 0xC9 # ''va@test.com'', in_password = None,
      in_age = None\<rparr>"

definition eva_row :: user_row where
  "eva_row =
     \<lparr>row_id = 2, row_name = ''Eva Lima'', row_email = CHR 0xC9 # ''va@test.com'',
      row_password = None, row_age = None, row_is_active = 1,
      row_created_at = t0, row_updated_at = t0\<rparr>"

definition db_eva :: db where
  "db_eva = \<lparr>db_rows = [ana_row, eva_row], db_seq = 2\<rparr>"

text \<open>A sequence of calls on which the two variants are run.\<close>

definition sample_calls :: "call list" where
  "sample_calls =
     [Create ana_input, Create bia_input, FindByEmail ''BIA@test.com'', Delete (Fin 2),
      FindAll, Count, Create (bia_input\<lparr>in_name := ''Bia Lima''\<rparr>)]"

section \<open>Properties\<close>

subsection \<open>Numbers\<close>

text \<open>Floor and ceiling of a quotient of numerals, for evaluating the definitions.\<close>

lemma floor_quot: "\<lfloor>(numeral a :: rat) / numeral b\<rfloor> = numeral a div numeral b"
  using floor_divide_of_int_eq [of "numeral a" "numeral b", where ?'a = rat] by simp

lemma floor_recip: "\<lfloor>1 / (numeral b :: rat)\<rfloor> = 1 div numeral b"
  using floor_divide_of_int_eq [of 1 "numeral b", where ?'a = rat] by simp

lemma ceiling_quot: "\<lceil>(numeral a :: rat) / numeral b\<rceil> = - (- numeral a div numeral b)"
  using floor_divide_of_int_eq [of "- numeral a" "numeral b", where ?'a = rat]
  by (simp add: ceiling_def)

lemma ceiling_recip: "\<lceil>1 / (numeral b :: rat)\<rceil> = - (- 1 div numeral b)"
  using floor_divide_of_int_eq [of "- 1" "numeral b", where ?'a = rat]
  by (simp add: ceiling_def)

lemmas number_eval_defs =
  to_double_def round_pos_def exponent_def ndigits.simps pw_def round_half_even_def Let_def
  floor_quot floor_recip ceiling_quot ceiling_recip

lemmas parseInt_eval_defs =
  parseInt_str_def is_digit_def digit_val_def digits_value_def is_space_def
  parseInt_num_def leading_digit_def trunc_rat_def

lemma parseInt_str_1: "parseInt_str ''1'' = Fin 1"
  by (simp add: parseInt_eval_defs number_eval_defs)

lemma parseInt_str_2: "parseInt_str ''2'' = Fin 2"
  by (simp add: parseInt_eval_defs number_eval_defs)

text \<open>
  An integer beyond \<open>2 ^ 53\<close> is read as the nearest double; a number that prints with an
  exponent is read as its first digit; a fraction is read as its integer part.
\<close>

lemma parseInt_str_rounds: "parseInt_str ''9007199254740993'' = Fin 9007199254740992"
  by (simp add: parseInt_eval_defs number_eval_defs)

lemma parseInt_num_1e21: "parseInt_num 1000000000000000000000 = Fin 1"
  by (simp add: parseInt_eval_defs number_eval_defs)

lemma parseInt_1e21: "parseInt (JNum (Fin (10 ^ 21))) = Fin 1"
  by (simp add: parseInt_num_1e21)

lemma parseInt_str_200: "parseInt_str ''200'' = Fin 200"
  by (simp add: parseInt_eval_defs number_eval_defs)

lemma parseInt_5e_7: "parseInt (JNum (Fin (1 / 2000000))) = Fin 5"
  by (simp add: parseInt_eval_defs number_eval_defs)

lemma parseInt_fraction: "parseInt (JNum (Fin (61 / 2))) = Fin 30"
  by (simp add: parseInt_eval_defs number_eval_defs)

lemma parseInt_31: "parseInt (JNum (Fin 31)) = Fin 31"
  by (simp add: parseInt_eval_defs number_eval_defs)

lemma parseInt_str_words: "parseInt_str ''abc'' = NaN" "parseInt_str '' 42px'' = Fin 42"
  by (simp_all add: parseInt_eval_defs number_eval_defs)



subsection \<open>Reading and writing the table\<close>

lemma foldr_max_ge: "x \<in> set xs \<Longrightarrow> x \<le> foldr max xs (b::int)"
  by (induction xs) auto

lemma foldr_max_base: "b \<le> foldr max xs (b::int)"
  by (induction xs) auto

lemma next_rowid_fresh: "r \<in> set (db_rows st) \<Longrightarrow> row_id r < next_rowid st"
  using foldr_max_ge [of "row_id r" "map row_id (db_rows st)" "db_seq st"]
  by (simp add: next_rowid_def)

lemma next_rowid_seq: "db_seq st < next_rowid st"
  using foldr_max_base [of "db_seq st" "map row_id (db_rows st)"]
  by (simp add: next_rowid_def)

lemma num_of_int_inj [simp]: "num_of_int i = num_of_int j \<longleftrightarrow> i = j"
  by (simp add: num_of_int_def)

lemma emailExists_iff:
  "emailExists st e \<longleftrightarrow> (\<exists>r\<in>set (db_rows st). LOWER (row_email r) = LOWER e)"
  by (auto simp: emailExists_def sql_count_email_def filter_empty_conv)

lemma list_ex_set: "list_ex P xs \<longleftrightarrow> (\<exists>x\<in>set xs. P x)"
  by (simp add: list_ex_iff)

lemma store_invD:
  assumes "store_inv st"
  shows "distinct (map row_id (db_rows st))"
    and "0 \<le> db_seq st"
    and "\<And>r. r \<in> set (db_rows st) \<Longrightarrow> 0 < row_id r"
    and "distinct (map (\<lambda>r. LOWER (row_email r)) (db_rows st))"
    and "\<And>r. r \<in> set (db_rows st) \<Longrightarrow> row_password r \<noteq> Some []"
    and "\<And>r. r \<in> set (db_rows st) \<Longrightarrow> row_age r \<noteq> Some NaN"
  using assms by (auto simp: store_inv_def list_all_iff)

lemma same_id_same_row:
  "store_inv st \<Longrightarrow> r \<in> set (db_rows st) \<Longrightarrow> r' \<in> set (db_rows st) \<Longrightarrow> row_id r = row_id r'
   \<Longrightarrow> r = r'"
  using store_invD(1) [of st] by (auto simp: distinct_map dest: inj_onD)

lemma same_email_same_row:
  "store_inv st \<Longrightarrow> r \<in> set (db_rows st) \<Longrightarrow> r' \<in> set (db_rows st)
   \<Longrightarrow> LOWER (row_email r) = LOWER (row_email r') \<Longrightarrow> r = r'"
  using store_invD(4) [of st] by (auto simp: distinct_map dest: inj_onD)

lemma findById_Some:
  "findById st x n1 n2 = Some u \<Longrightarrow>
   \<exists>r\<in>set (db_rows st). num_of_int (row_id r) = x \<and> row_is_active r = 1 \<and>
      u = new_User (fromRow r) n1 n2"
proof -
  assume a: "findById st x n1 n2 = Some u"
  then obtain r rs where f: "sql_select_by_id st x = r # rs" and u: "u = new_User (fromRow r) n1 n2"
    by (auto simp: findById_def split: list.splits)
  have "r \<in> set (sql_select_by_id st x)" using f by simp
  then show ?thesis using u by (auto simp: sql_select_by_id_def)
qed

lemma findById_None:
  "findById st x n1 n2 = None \<longleftrightarrow>
   \<not> (\<exists>r\<in>set (db_rows st). num_of_int (row_id r) = x \<and> row_is_active r = 1)"
proof -
  have "findById st x n1 n2 = None \<longleftrightarrow> sql_select_by_id st x = []"
    by (simp add: findById_def split: list.splits)
  then show ?thesis by (simp add: sql_select_by_id_def filter_empty_conv)
qed

lemma bind_num_id: "a \<noteq> Some NaN \<Longrightarrow> bind_num a = a"
  by (auto simp: bind_num_def split: option.splits jsnum.splits)

lemma or_null_id: "p \<noteq> Some [] \<Longrightarrow> or_null p = p"
  by (auto simp: or_null_def split: option.splits)

lemma read_back_fields:
  "u_id (new_User (fromRow r) n1 n2) = Some (row_id r)"
  "u_name (new_User (fromRow r) n1 n2) = row_name r"
  "u_email (new_User (fromRow r) n1 n2) = row_email r"
  "u_password (new_User (fromRow r) n1 n2) = or_null (row_password r)"
  "u_age (new_User (fromRow r) n1 n2) = row_age r"
  "u_is_active (new_User (fromRow r) n1 n2) = (row_is_active r = 1)"
  "u_created_at (new_User (fromRow r) n1 n2) = or_now (Some (row_created_at r)) n1"
  "u_updated_at (new_User (fromRow r) n1 n2) = or_now (Some (row_updated_at r)) n2"
  by (simp_all add: new_User_def fromRow_def)


lemma delete_found:
  assumes inv: "store_inv st" and f: "findById st x n1 n2 = Some u"
  shows "delete st x n1 n2 n3 = Some (True, st\<lparr>db_rows := map (deactivate x n3) (db_rows st)\<rparr>)"
proof -
  from findById_Some [OF f] obtain r where r: "r \<in> set (db_rows st)"
    and x: "num_of_int (row_id r) = x" and act: "row_is_active r = 1"
    and u: "u = new_User (fromRow r) n1 n2" by blast
  have pos: "row_id r \<noteq> 0" using store_invD(3) [OF inv r] by simp
  have pw: "or_null (row_password r) = row_password r"
    using store_invD(5) [OF inv r] by (rule or_null_id)
  have ag: "bind_num (row_age r) = row_age r"
    using store_invD(6) [OF inv r] by (rule bind_num_id)
  have uniq: "\<not> list_ex (\<lambda>r'. row_id r' \<noteq> row_id r \<and> row_email r' = row_email r) (db_rows st)"
  proof
    assume "list_ex (\<lambda>r'. row_id r' \<noteq> row_id r \<and> row_email r' = row_email r) (db_rows st)"
    then obtain r' where r': "r' \<in> set (db_rows st)" and ne: "row_id r' \<noteq> row_id r"
      and e: "row_email r' = row_email r" by (auto simp: list_ex_iff)
    from same_email_same_row [OF inv r' r] e have "r' = r" by simp
    with ne show False by simp
  qed
  have m: "map (\<lambda>r'. if row_id r' = row_id r
              then r'\<lparr>row_name := row_name r, row_email := row_email r,
                     row_password := row_password r, row_age := bind_num (row_age r),
                     row_is_active := 0, row_updated_at := n3\<rparr>
              else r') (db_rows st) = map (deactivate x n3) (db_rows st)"
  proof (rule map_cong [OF refl])
    fix r' assume r': "r' \<in> set (db_rows st)"
    show "(if row_id r' = row_id r
              then r'\<lparr>row_name := row_name r, row_email := row_email r,
                     row_password := row_password r, row_age := bind_num (row_age r),
                     row_is_active := 0, row_updated_at := n3\<rparr>
              else r') = deactivate x n3 r'"
    proof (cases "row_id r' = row_id r")
      case True
      then have "r' = r" using same_id_same_row [OF inv r' r] by simp
      then show ?thesis using x ag by (simp add: deactivate_def)
    next
      case False
      then show ?thesis using x by (auto simp: deactivate_def)
    qed
  qed
  show ?thesis
    by (simp add: delete_def f u save_def read_back_fields pw ag sql_update_def pos uniq m)
qed

lemma delete_absent: "findById st x n1 n2 = None \<Longrightarrow> delete st x n1 n2 n3 = Some (False, st)"
  by (simp add: delete_def)


lemma save_insert:
  assumes "u_id u = None \<or> u_id u = Some 0" and "\<not> emailExists st (u_email u)"
  shows "save st u now =
     Some (u\<lparr>u_updated_at := now, u_id := Some (next_rowid st)\<rparr>,
           st\<lparr>db_rows := db_rows st @ [new_row st u now], db_seq := next_rowid st\<rparr>)"
proof -
  have "\<not> list_ex (\<lambda>r. row_email r = u_email u) (db_rows st)"
    using assms(2) by (auto simp: emailExists_iff list_ex_iff)
  then show ?thesis using assms(1)
    by (auto simp: save_def sql_insert_def new_row_def Let_def)
qed

lemma candidate_id: "u_id (new_User (as_UserData d) n1 n2) = None"
  by (simp add: new_User_def as_UserData_def)

lemma create_invalid:
  "\<not> valid (validate (new_User (as_UserData d) n1 n2)) \<Longrightarrow>
   create st d n1 n2 n3 =
     Some (\<lparr>cr_success = False, cr_user = None,
            cr_errors = Some (errors (validate (new_User (as_UserData d) n1 n2)))\<rparr>, st)"
  by (simp add: create_def Let_def)

lemma create_conflict:
  "valid (validate (new_User (as_UserData d) n1 n2)) \<Longrightarrow>
   emailExists st (u_email (new_User (as_UserData d) n1 n2)) \<Longrightarrow>
   create st d n1 n2 n3 =
     Some (\<lparr>cr_success = False, cr_user = None, cr_errors = Some [EmailTaken]\<rparr>, st)"
  by (simp add: create_def Let_def)

lemma create_insert:
  assumes "valid (validate (new_User (as_UserData d) n1 n2))"
    and "\<not> emailExists st (u_email (new_User (as_UserData d) n1 n2))"
  shows "create st d n1 n2 n3 =
     Some (\<lparr>cr_success = True,
            cr_user = Some ((new_User (as_UserData d) n1 n2)
                       \<lparr>u_updated_at := n3, u_id := Some (next_rowid st)\<rparr>),
            cr_errors = None\<rparr>,
           st\<lparr>db_rows := db_rows st @ [new_row st (new_User (as_UserData d) n1 n2) n3],
              db_seq := next_rowid st\<rparr>)"
  using assms save_insert [of "new_User (as_UserData d) n1 n2" st n3]
  by (simp add: create_def Let_def candidate_id)

lemma bind_num_not_NaN: "bind_num a \<noteq> Some NaN"
  by (auto simp: bind_num_def split: option.splits jsnum.splits)

lemma or_null_not_empty: "or_null p \<noteq> Some []"
  by (auto simp: or_null_def split: option.splits)

lemma inv_insert:
  assumes inv: "store_inv st" and ne: "\<not> emailExists st (u_email u)"
    and pw: "u_password u \<noteq> Some []"
  shows "store_inv (st\<lparr>db_rows := db_rows st @ [new_row st u now], db_seq := next_rowid st\<rparr>)"
proof -
  have fresh: "next_rowid st \<notin> row_id ` set (db_rows st)"
    using next_rowid_fresh [of _ st] by force
  have pos: "0 < next_rowid st"
    using next_rowid_seq [of st] store_invD(2) [OF inv] by simp
  have em: "LOWER (u_email u) \<notin> (\<lambda>r. LOWER (row_email r)) ` set (db_rows st)"
    using ne by (auto simp: emailExists_iff)
  show ?thesis
    using inv fresh pos em pw
    by (simp add: store_inv_def new_row_def bind_num_not_NaN)
qed

lemma inv_create:
  assumes inv: "store_inv st" and c: "create st d n1 n2 n3 = Some (res, st')"
  shows "store_inv st'"
proof -
  let ?u = "new_User (as_UserData d) n1 n2"
  have pw: "u_password ?u \<noteq> Some []" by (simp add: new_User_def or_null_not_empty)
  consider "\<not> valid (validate ?u)" | "valid (validate ?u)" "emailExists st (u_email ?u)"
    | "valid (validate ?u)" "\<not> emailExists st (u_email ?u)" by blast
  then show ?thesis
  proof cases
    case 1
    then show ?thesis using c inv by (simp add: create_invalid)
  next
    case 2
    then show ?thesis using c inv by (simp add: create_conflict)
  next
    case 3
    then show ?thesis using c inv_insert [OF inv 3(2) pw, of n3] by (auto simp: create_insert)
  qed
qed

lemma deactivate_simps [simp]:
  "row_id (deactivate x now r) = row_id r"
  "row_email (deactivate x now r) = row_email r"
  "row_password (deactivate x now r) = row_password r"
  "row_age (deactivate x now r) = row_age r"
  "row_name (deactivate x now r) = row_name r"
  "row_created_at (deactivate x now r) = row_created_at r"
  by (simp_all add: deactivate_def)

lemma inv_deactivate:
  "store_inv st \<Longrightarrow> store_inv (st\<lparr>db_rows := map (deactivate x now) (db_rows st)\<rparr>)"
  by (simp add: store_inv_def list_all_iff o_def)

lemma inv_delete:
  assumes inv: "store_inv st" and d: "delete st x n1 n2 n3 = Some (b, st')"
  shows "store_inv st'"
proof (cases "findById st x n1 n2")
  case None
  then show ?thesis using d inv by (simp add: delete_absent)
next
  case (Some u)
  then show ?thesis using d inv_deactivate [OF inv, of x n3] by (auto simp: delete_found [OF inv Some])
qed


lemma update_unfold:
  "update st i body n1 n2 n3 =
     (case findById st (parseInt_str i) n1 n2 of
        None \<Rightarrow> (NotFound404, st)
      | Some user \<Rightarrow>
          if email_conflict st user body then (Conflict400 EmailTaken, st)
          else if \<not> valid (validate (apply_body user body))
          then (Invalid400 (errors (validate (apply_body user body))), st)
          else (case save st (apply_body user body) n3 of
                  None \<Rightarrow> (Error500, st)
                | Some (user4, st') \<Rightarrow> (Ok200 (toPublicJSON user4), st')))"
  by (simp only: update_def apply_body_def email_conflict_def Let_def)

lemma apply_body_frame [simp]:
  "u_id (apply_body u b) = u_id u"
  "u_password (apply_body u b) = u_password u"
  "u_is_active (apply_body u b) = u_is_active u"
  "u_created_at (apply_body u b) = u_created_at u"
  "u_updated_at (apply_body u b) = u_updated_at u"
  by (simp_all add: apply_body_def Let_def)

lemma apply_body_email:
  "u_email (apply_body u b) = (if truthy_text (b_email b) then str_of (b_email b) else u_email u)"
  by (simp add: apply_body_def Let_def)

lemma apply_body_name:
  "u_name (apply_body u b) = (if truthy_text (b_name b) then str_of (b_name b) else u_name u)"
  by (simp add: apply_body_def Let_def)

lemma apply_body_age:
  "u_age (apply_body u b) = (if b_age b \<noteq> JUndefined then Some (parseInt (b_age b)) else u_age u)"
  by (simp add: apply_body_def Let_def)

lemma save_update_row:
  assumes inv: "store_inv st" and f: "findById st x n1 n2 = Some user"
    and nc: "\<not> email_conflict st user body"
  shows "save st (apply_body user body) n3 =
     Some ((apply_body user body)\<lparr>u_updated_at := n3\<rparr>,
           st\<lparr>db_rows := map (write_row x (apply_body user body) n3) (db_rows st)\<rparr>)"
proof -
  from findById_Some [OF f] obtain r where r: "r \<in> set (db_rows st)"
    and x: "num_of_int (row_id r) = x" and act: "row_is_active r = 1"
    and u: "user = new_User (fromRow r) n1 n2" by blast
  let ?u = "apply_body user body"
  have id: "u_id user = Some (row_id r)" by (simp add: u read_back_fields)
  have pos: "row_id r \<noteq> 0" using store_invD(3) [OF inv r] by simp
  have pw: "u_password ?u = row_password r"
    using store_invD(5) [OF inv r] by (simp add: u read_back_fields or_null_id)
  have ac: "u_is_active ?u" by (simp add: u read_back_fields act)
  have uniq: "\<not> list_ex (\<lambda>r'. row_id r' \<noteq> row_id r \<and> row_email r' = u_email ?u) (db_rows st)"
  proof
    assume "list_ex (\<lambda>r'. row_id r' \<noteq> row_id r \<and> row_email r' = u_email ?u) (db_rows st)"
    then obtain r' where r': "r' \<in> set (db_rows st)" and ne: "row_id r' \<noteq> row_id r"
      and e: "row_email r' = u_email ?u" by (auto simp: list_ex_iff)
    show False
    proof (cases "truthy_text (b_email body) \<and> str_of (b_email body) \<noteq> u_email user")
      case True
      then have "\<not> emailExists st (str_of (b_email body))"
        using nc by (simp add: email_conflict_def)
      moreover have "u_email ?u = str_of (b_email body)" using True by (simp add: apply_body_email)
      ultimately show False using r' e by (auto simp: emailExists_iff)
    next
      case False
      then have "u_email ?u = row_email r" by (auto simp: apply_body_email u read_back_fields)
      with e same_email_same_row [OF inv r' r] ne show False by simp
    qed
  qed
  have m: "map (\<lambda>r'. if row_id r' = row_id r
              then r'\<lparr>row_name := u_name ?u, row_email := u_email ?u,
                     row_password := row_password r, row_age := bind_num (u_age ?u),
                     row_is_active := 1, row_updated_at := n3\<rparr>
              else r') (db_rows st) = map (write_row x ?u n3) (db_rows st)"
  proof (rule map_cong [OF refl])
    fix r' assume r': "r' \<in> set (db_rows st)"
    show "(if row_id r' = row_id r
              then r'\<lparr>row_name := u_name ?u, row_email := u_email ?u,
                     row_password := row_password r, row_age := bind_num (u_age ?u),
                     row_is_active := 1, row_updated_at := n3\<rparr>
              else r') = write_row x ?u n3 r'"
    proof (cases "row_id r' = row_id r")
      case True
      then have "r' = r" using same_id_same_row [OF inv r' r] by simp
      then show ?thesis using x act by (simp add: write_row_def)
    next
      case False
      then show ?thesis using x by (auto simp: write_row_def)
    qed
  qed
  show ?thesis
    using pw ac by (simp add: save_def Let_def id pos sql_update_def uniq m)
qed

lemma distinct_replace:
  assumes "distinct (map k xs)" and "distinct (map f xs)" and "v \<notin> f ` set xs"
  shows "distinct (map (\<lambda>y. if k y = i then v else f y) xs)"
  using assms by (induction xs) (auto simp: image_iff)

lemma write_row_simps [simp]:
  "row_id (write_row x u now r) = row_id r"
  "row_password (write_row x u now r) = row_password r"
  "row_is_active (write_row x u now r) = row_is_active r"
  "row_created_at (write_row x u now r) = row_created_at r"
  by (simp_all add: write_row_def)

lemma write_row_age: "row_age r \<noteq> Some NaN \<Longrightarrow> row_age (write_row x u now r) \<noteq> Some NaN"
  by (simp add: write_row_def bind_num_not_NaN)

lemma inv_write_row:
  assumes inv: "store_inv st" and r: "r \<in> set (db_rows st)"
    and e: "u_email u = row_email r \<or> \<not> emailExists st (u_email u)"
  shows "store_inv (st\<lparr>db_rows := map (write_row (num_of_int (row_id r)) u now) (db_rows st)\<rparr>)"
proof -
  let ?w = "write_row (num_of_int (row_id r)) u now"
  have em: "distinct (map (\<lambda>r'. LOWER (row_email r')) (map ?w (db_rows st)))"
  proof (cases "u_email u = row_email r")
    case True
    have eq: "map (\<lambda>r'. LOWER (row_email r')) (map ?w (db_rows st))
        = map (\<lambda>r'. LOWER (row_email r')) (db_rows st)"
      unfolding map_map
    proof (rule map_cong [OF refl])
      fix r' assume r': "r' \<in> set (db_rows st)"
      show "((\<lambda>r'. LOWER (row_email r')) \<circ> ?w) r' = LOWER (row_email r')"
        using same_id_same_row [OF inv r' r] True by (auto simp: write_row_def)
    qed
    show ?thesis unfolding eq by (rule store_invD(4) [OF inv])
  next
    case False
    then have "LOWER (u_email u) \<notin> (\<lambda>r'. LOWER (row_email r')) ` set (db_rows st)"
      using e by (auto simp: emailExists_iff)
    from distinct_replace [OF store_invD(1) [OF inv] store_invD(4) [OF inv] this, of "row_id r"]
    have d: "distinct (map (\<lambda>y. if row_id y = row_id r then LOWER (u_email u)
                             else LOWER (row_email y)) (db_rows st))" .
    have eq: "map (\<lambda>r'. LOWER (row_email r')) (map ?w (db_rows st))
        = map (\<lambda>y. if row_id y = row_id r then LOWER (u_email u)
                             else LOWER (row_email y)) (db_rows st)"
      unfolding map_map by (rule map_cong [OF refl]) (simp add: write_row_def)
    show ?thesis unfolding eq by (rule d)
  qed
  have ag: "list_all (\<lambda>r. row_age r \<noteq> Some NaN) (map ?w (db_rows st))"
    using store_invD(6) [OF inv] by (simp add: list_all_iff write_row_age)
  show ?thesis
    using inv em ag by (simp add: store_inv_def list_all_iff o_def)
qed

lemma inv_update:
  assumes inv: "store_inv st" and up: "update st i body n1 n2 n3 = (resp, st')"
  shows "store_inv st'"
proof (cases "findById st (parseInt_str i) n1 n2")
  case None
  then show ?thesis using up inv by (simp add: update_unfold)
next
  case (Some user)
  from findById_Some [OF Some] obtain r where r: "r \<in> set (db_rows st)"
    and x: "num_of_int (row_id r) = parseInt_str i"
    and u: "user = new_User (fromRow r) n1 n2" by blast
  show ?thesis
  proof (cases "email_conflict st user body \<or> \<not> valid (validate (apply_body user body))")
    case True
    then show ?thesis using up inv Some by (auto simp: update_unfold split: if_splits)
  next
    case False
    then have nc: "\<not> email_conflict st user body" by simp
    have e: "u_email (apply_body user body) = row_email r
             \<or> \<not> emailExists st (u_email (apply_body user body))"
      using nc by (auto simp: email_conflict_def apply_body_email u read_back_fields)
    have "st' = st\<lparr>db_rows := map (write_row (parseInt_str i) (apply_body user body) n3) (db_rows st)\<rparr>"
      using up False Some save_update_row [OF inv Some nc, of n3] by (auto simp: update_unfold)
    then show ?thesis using inv_write_row [OF inv r e, of n3] x by simp
  qed
qed

lemma inv_empty: "store_inv empty_db"
  by (simp add: store_inv_def empty_db_def)

lemma reachable_inv: "reachable st \<Longrightarrow> store_inv st"
proof (induction rule: reachable.induct)
  case reach_empty
  show ?case by (rule inv_empty)
next
  case (reach_create st d now1 now2 now3 res st')
  then show ?case by (blast intro: inv_create)
next
  case (reach_delete st x now1 now2 now3 b st')
  then show ?case by (blast intro: inv_delete)
next
  case (reach_update st i body now1 now2 now3 resp st')
  then show ?case by (blast intro: inv_update)
qed

subsection \<open>Validation\<close>

lemma trim_Nil [simp]: "trim [] = []"
  by (simp add: trim_def)

lemma validate_errors:
  "errors (validate u) =
     (if trim (u_name u) = [] then [NameRequired]
      else if length (trim (u_name u)) < 2 then [NameTooShort] else []) @
     (if trim (u_email u) = [] then [EmailRequired]
      else if \<not> emailRegex_test (u_email u) then [EmailInvalid] else []) @
     (case u_age u of None \<Rightarrow> []
      | Some a \<Rightarrow> if js_lt a (Fin 0) \<or> js_gt a (Fin 150) then [AgeRange] else [])"
  by (auto simp: validate_def Let_def)

lemma validate_valid: "valid (validate u) \<longleftrightarrow> errors (validate u) = []"
  by (simp add: validate_def Let_def)

lemma validate_members:
  "NameRequired \<in> set (errors (validate u)) \<longleftrightarrow> trim (u_name u) = []"
  "NameTooShort \<in> set (errors (validate u)) \<longleftrightarrow> trim (u_name u) \<noteq> [] \<and> length (trim (u_name u)) < 2"
  "EmailRequired \<in> set (errors (validate u)) \<longleftrightarrow> trim (u_email u) = []"
  "EmailInvalid \<in> set (errors (validate u)) \<longleftrightarrow> trim (u_email u) \<noteq> [] \<and> \<not> emailRegex_test (u_email u)"
  "AgeRange \<in> set (errors (validate u)) \<longleftrightarrow>
     (\<exists>a. u_age u = Some a \<and> (js_lt a (Fin 0) \<or> js_gt a (Fin 150)))"
  "EmailTaken \<notin> set (errors (validate u))"
  by (cases "u_age u"; auto simp: validate_errors)+

lemma half_not_int: "(61 / 2 :: rat) \<noteq> of_int n"
proof
  assume "(61 / 2 :: rat) = of_int n"
  then have "(61 :: rat) = of_int (2 * n)" by simp
  then have "(of_int 61 :: rat) = of_int (2 * n)" by simp
  then have "(61 :: int) = 2 * n" by (simp only: of_int_eq_iff)
  then show False by presburger
qed

lemma age_NaN_passes:
  "AgeRange \<notin> set (errors (validate (u\<lparr>u_age := Some NaN\<rparr>)))"
  by (simp add: validate_members js_gt_def)

text \<open>
  \<^const>\<open>emailRegex_test\<close> accepts the language of the regular expression: the strings
  \<open>a@b.c\<close> with \<open>a\<close>, \<open>b\<close> and \<open>c\<close> non-empty and free of white space and of \<open>@\<close>.
\<close>

lemma not_space_at [simp]: "\<not> is_space (CHR ''@'')" "\<not> is_space (CHR ''.'')"
  by (simp_all add: is_space_def)

lemma inner_dot:
  "CHR ''.'' \<in> set (butlast (tl d)) \<longleftrightarrow> (\<exists>b c. d = b @ ''.'' @ c \<and> b \<noteq> [] \<and> c \<noteq> [])"
proof
  assume "CHR ''.'' \<in> set (butlast (tl d))"
  then obtain p q where pq: "butlast (tl d) = p @ CHR ''.'' # q" by (auto simp: in_set_conv_decomp)
  then have ne: "tl d \<noteq> []" by auto
  then have t: "tl d = p @ CHR ''.'' # q @ [last (tl d)]"
    using pq append_butlast_last_id [OF ne] by simp
  from ne have "d \<noteq> []" by auto
  then have "d = hd d # tl d" by simp
  then have "d = (hd d # p) @ ''.'' @ (q @ [last (tl d)])" using t by simp
  then show "\<exists>b c. d = b @ ''.'' @ c \<and> b \<noteq> [] \<and> c \<noteq> []" by blast
next
  assume "\<exists>b c. d = b @ ''.'' @ c \<and> b \<noteq> [] \<and> c \<noteq> []"
  then obtain b c where d: "d = b @ ''.'' @ c" and b: "b \<noteq> []" and c: "c \<noteq> []" by blast
  from b obtain b0 b' where b': "b = b0 # b'" by (cases b) auto
  have "tl d = b' @ CHR ''.'' # c" by (simp add: d b')
  then have "butlast (tl d) = b' @ CHR ''.'' # butlast c" using c by (simp add: butlast_append)
  then show "CHR ''.'' \<in> set (butlast (tl d))" by simp
qed

lemma emailRegex_test_split:
  assumes "emailRegex_test s"
  shows "(\<exists>a b c. s = a @ ''@'' @ b @ ''.'' @ c \<and> a \<noteq> [] \<and> b \<noteq> [] \<and> c \<noteq> [] \<and>
        (\<forall>ch\<in>set (a @ b @ c). \<not> is_space ch \<and> ch \<noteq> CHR ''@''))"
proof -
  let ?a = "takeWhile (\<lambda>c. c \<noteq> CHR ''@'') s"
  let ?r = "dropWhile (\<lambda>c. c \<noteq> CHR ''@'') s"
  from assms obtain x d where r: "?r = x # d" and a: "?a \<noteq> []" and nd: "CHR ''@'' \<notin> set d"
    and ns: "\<not> list_ex is_space s" and dot: "CHR ''.'' \<in> set (butlast (tl d))"
    by (auto simp: emailRegex_test_def Let_def split: list.splits)
  have x: "x = CHR ''@''" using hd_dropWhile [of "\<lambda>c. c \<noteq> CHR ''@''" s] r by auto
  have s: "s = ?a @ ''@'' @ d" using takeWhile_dropWhile_id [of "\<lambda>c. c \<noteq> CHR ''@''" s] r x by simp
  from dot obtain b c where d: "d = b @ ''.'' @ c" and b: "b \<noteq> []" and c: "c \<noteq> []"
    unfolding inner_dot by blast
  have na: "\<forall>ch\<in>set ?a. ch \<noteq> CHR ''@''" by (auto dest: set_takeWhileD)
  have sp: "\<forall>ch\<in>set s. \<not> is_space ch" using ns by (simp add: list_ex_iff)
  have "set d \<subseteq> set s" using set_dropWhileD [of _ "\<lambda>c. c \<noteq> CHR ''@''" s] r by auto
  then have "set (?a @ b @ c) \<subseteq> set s" by (auto simp: d dest: set_takeWhileD)
  then have "\<forall>ch\<in>set (?a @ b @ c). \<not> is_space ch" using sp by blast
  moreover have "\<forall>ch\<in>set (?a @ b @ c). ch \<noteq> CHR ''@''" using na nd by (auto simp: d)
  ultimately have "\<forall>ch\<in>set (?a @ b @ c). \<not> is_space ch \<and> ch \<noteq> CHR ''@''" by blast
  moreover have "s = ?a @ ''@'' @ b @ ''.'' @ c" using s d by simp
  ultimately show ?thesis
    using a b c by blast
qed

lemma emailRegex_test_join:
  assumes s: "s = a @ ''@'' @ b @ ''.'' @ c" and a: "a \<noteq> []" and b: "b \<noteq> []" and c: "c \<noteq> []"
    and ok: "\<forall>ch\<in>set (a @ b @ c). \<not> is_space ch \<and> ch \<noteq> CHR ''@''"
  shows "emailRegex_test s"
proof -
  have na: "\<And>ch. ch \<in> set a \<Longrightarrow> ch \<noteq> CHR ''@''" using ok by simp
  have tw: "takeWhile (\<lambda>c. c \<noteq> CHR ''@'') s = a"
    unfolding s by (rule takeWhile_append2 [THEN trans]) (simp_all add: na)
  have dw: "dropWhile (\<lambda>c. c \<noteq> CHR ''@'') s = CHR ''@'' # (b @ ''.'' @ c)"
    unfolding s by (rule dropWhile_append2 [THEN trans]) (simp_all add: na)
  have nd: "CHR ''@'' \<notin> set (b @ ''.'' @ c)"
  proof
    assume "CHR ''@'' \<in> set (b @ ''.'' @ c)"
    then have "CHR ''@'' \<in> set (a @ b @ c)" by auto
    with ok show False by blast
  qed
  have ns: "\<not> list_ex is_space s"
  proof
    assume "list_ex is_space s"
    then obtain ch where ch: "ch \<in> set s" and sp: "is_space ch" by (auto simp: list_ex_iff)
    from ch consider "ch \<in> set (a @ b @ c)" | "ch = CHR ''@''" | "ch = CHR ''.''"
      unfolding s by auto
    then show False
    proof cases
      case 1
      with ok sp show False by blast
    next
      case 2
      with sp show False by simp
    next
      case 3
      with sp show False by simp
    qed
  qed
  have dot: "CHR ''.'' \<in> set (butlast (tl (b @ ''.'' @ c)))"
    by (rule inner_dot [THEN iffD2], rule exI [of _ b], rule exI [of _ c]) (simp add: b c)
  show ?thesis
    unfolding emailRegex_test_def Let_def tw dw list.case using a nd ns dot by (intro conjI)
qed

lemma emailRegex_test_iff:
  "emailRegex_test s \<longleftrightarrow>
     (\<exists>a b c. s = a @ ''@'' @ b @ ''.'' @ c \<and> a \<noteq> [] \<and> b \<noteq> [] \<and> c \<noteq> [] \<and>
        (\<forall>ch\<in>set (a @ b @ c). \<not> is_space ch \<and> ch \<noteq> CHR ''@''))"
proof
  assume "emailRegex_test s"
  then show "\<exists>a b c. s = a @ ''@'' @ b @ ''.'' @ c \<and> a \<noteq> [] \<and> b \<noteq> [] \<and> c \<noteq> [] \<and>
        (\<forall>ch\<in>set (a @ b @ c). \<not> is_space ch \<and> ch \<noteq> CHR ''@'')"
    by (rule emailRegex_test_split)
next
  assume "\<exists>a b c. s = a @ ''@'' @ b @ ''.'' @ c \<and> a \<noteq> [] \<and> b \<noteq> [] \<and> c \<noteq> [] \<and>
        (\<forall>ch\<in>set (a @ b @ c). \<not> is_space ch \<and> ch \<noteq> CHR ''@'')"
  then show "emailRegex_test s"
    by (elim exE conjE) (rule emailRegex_test_join)
qed

subsection \<open>The sample databases\<close>

lemmas eval_defs =
  create_def new_User_def as_UserData_def validate_def trim_def is_space_def
  emailRegex_test_def js_gt_def or_null_def or_now_def emailExists_def sql_count_email_def
  LOWER_def lower_ascii_def save_def sql_insert_def sql_update_def next_rowid_def bind_num_def
  empty_db_def Let_def findById_def sql_select_by_id_def num_of_int_def fromRow_def
  delete_def ana_input_def bia_input_def ana_row_def bia_row_def db_ana_def db_two_def
  db_deleted_def t0_def t1_def eva_input_def eva_row_def db_eva_def

lemma create_ana: "create empty_db ana_input t0 t0 t0 =
   Some (\<lparr>cr_success = True,
           cr_user = Some \<lparr>u_id = Some 1, u_name = ''Ana Silva'', u_email = ''ana@test.com'',
              u_password = None, u_age = Some (Fin 30), u_is_active = True,
              u_created_at = t0, u_updated_at = t0\<rparr>,
           cr_errors = None\<rparr>, db_ana)"
  by (simp add: eval_defs)

lemma create_bia: "create db_ana bia_input t0 t0 t0 =
   Some (\<lparr>cr_success = True,
           cr_user = Some \<lparr>u_id = Some 2, u_name = ''Bia Souza'', u_email = ''Bia@Test.com'',
              u_password = Some ''s3cret'', u_age = None, u_is_active = True,
              u_created_at = t0, u_updated_at = t0\<rparr>,
           cr_errors = None\<rparr>, db_two)"
  by (simp add: eval_defs)

lemma delete_bia: "delete db_two (Fin 2) t1 t1 t1 = Some (True, db_deleted)"
  by (simp add: eval_defs)

lemma inv_db_deleted: "store_inv db_deleted"
  by (simp add: store_inv_def eval_defs)

lemma inv_db_two: "store_inv db_two"
  by (simp add: store_inv_def eval_defs)

lemma reachable_db_deleted: "reachable db_deleted"
proof -
  have "reachable db_ana" using reach_create [OF reach_empty create_ana] .
  then have "reachable db_two" using create_bia by (rule reach_create)
  then show ?thesis using delete_bia by (rule reach_delete)
qed

lemma create_eva: "create db_ana eva_input t0 t0 t0 =
   Some (\<lparr>cr_success = True,
           cr_user = Some \<lparr>u_id = Some 2, u_name = ''Eva Lima'',
              u_email = CHR 0xC9 # ''va@test.com'',
              u_password = None, u_age = None, u_is_active = True,
              u_created_at = t0, u_updated_at = t0\<rparr>,
           cr_errors = None\<rparr>, db_eva)"
  by (simp add: eval_defs)

lemma inv_db_eva: "store_inv db_eva"
  by (simp add: store_inv_def eval_defs)

lemma reachable_db_eva: "reachable db_eva"
proof -
  have "reachable db_ana" using reach_create [OF reach_empty create_ana] .
  then show ?thesis using create_eva by (rule reach_create)
qed

text \<open>The two spellings of the third email are the same up to letter case.\<close>

lemma same_letters:
  "toLowerCase (CHR 0xC9 # ''va@test.com'') = toLowerCase (CHR 0xE9 # ''va@test.com'')"
  by (simp add: toLowerCase_def lower_js_def latin1_upper_def latin1_lower_def lower_ascii_def)

subsection \<open>Looking records up\<close>

lemma deactivate_hidden:
  "num_of_int (row_id r) = x \<Longrightarrow> row_is_active (deactivate x now r) = 0"
  by (simp add: deactivate_def)

lemma sel_deactivated:
  "sql_select_by_id (st\<lparr>db_rows := map (deactivate x now) (db_rows st)\<rparr>) x = []"
proof -
  have "\<And>r. \<not> (num_of_int (row_id (deactivate x now r)) = x \<and> row_is_active (deactivate x now r) = 1)"
  proof
    fix r assume a: "num_of_int (row_id (deactivate x now r)) = x \<and> row_is_active (deactivate x now r) = 1"
    then have "num_of_int (row_id r) = x" by simp
    from deactivate_hidden [OF this, of now] a show False by simp
  qed
  then show ?thesis
    by (simp add: sql_select_by_id_def filter_empty_conv)
qed

lemma findById_deactivated:
  "findById (st\<lparr>db_rows := map (deactivate x now) (db_rows st)\<rparr>) x m1 m2 = None"
  by (simp add: findById_def sel_deactivated)

lemma findByEmail_Some:
  "findByEmail st e n1 n2 = Some u \<Longrightarrow>
   \<exists>r\<in>set (db_rows st). LOWER (row_email r) = LOWER e \<and> row_is_active r = 1 \<and>
      u = new_User (fromRow r) n1 n2"
proof -
  assume a: "findByEmail st e n1 n2 = Some u"
  then obtain r rs where f: "sql_select_by_email st e = r # rs" and u: "u = new_User (fromRow r) n1 n2"
    by (auto simp: findByEmail_def split: list.splits)
  have "r \<in> set (sql_select_by_email st e)" using f by simp
  then show ?thesis using u by (auto simp: sql_select_by_email_def)
qed

lemma findByEmail_None:
  "findByEmail st e n1 n2 = None \<longleftrightarrow>
   \<not> (\<exists>r\<in>set (db_rows st). LOWER (row_email r) = LOWER e \<and> row_is_active r = 1)"
proof -
  have "findByEmail st e n1 n2 = None \<longleftrightarrow> sql_select_by_email st e = []"
    by (simp add: findByEmail_def split: list.splits)
  then show ?thesis by (simp add: sql_select_by_email_def filter_empty_conv)
qed

lemma delete_hides_email:
  assumes inv: "store_inv st" and f: "findById st x n1 n2 = Some u"
  shows "emailExists (st\<lparr>db_rows := map (deactivate x n3) (db_rows st)\<rparr>) (u_email u)"
    and "findByEmail (st\<lparr>db_rows := map (deactivate x n3) (db_rows st)\<rparr>) (u_email u) m1 m2 = None"
proof -
  from findById_Some [OF f] obtain r where r: "r \<in> set (db_rows st)"
    and x: "num_of_int (row_id r) = x" and u: "u = new_User (fromRow r) n1 n2" by blast
  have e: "u_email u = row_email r" by (simp add: u read_back_fields)
  have "deactivate x n3 r \<in> set (map (deactivate x n3) (db_rows st))" using r by simp
  then show "emailExists (st\<lparr>db_rows := map (deactivate x n3) (db_rows st)\<rparr>) (u_email u)"
    unfolding emailExists_iff e by (intro bexI [of _ "deactivate x n3 r"]) simp_all
  have "\<not> (\<exists>r'\<in>set (map (deactivate x n3) (db_rows st)).
            LOWER (row_email r') = LOWER (row_email r) \<and> row_is_active r' = 1)"
  proof
    assume "\<exists>r'\<in>set (map (deactivate x n3) (db_rows st)).
            LOWER (row_email r') = LOWER (row_email r) \<and> row_is_active r' = 1"
    then obtain r0 where r0: "r0 \<in> set (db_rows st)"
      and l: "LOWER (row_email (deactivate x n3 r0)) = LOWER (row_email r)"
      and a: "row_is_active (deactivate x n3 r0) = 1" by auto
    from l have "LOWER (row_email r0) = LOWER (row_email r)" by simp
    from same_email_same_row [OF inv r0 r this] have "r0 = r" .
    with deactivate_hidden [OF x, of n3] a show False by simp
  qed
  then show "findByEmail (st\<lparr>db_rows := map (deactivate x n3) (db_rows st)\<rparr>) (u_email u) m1 m2 = None"
    unfolding findByEmail_None e by simp
qed

lemma map_enumerate:
  "(\<And>k r. f (g k r) = h r) \<Longrightarrow> map (\<lambda>(k, r). f (g k r)) (enumerate n xs) = map h xs"
  by (induction xs arbitrary: n) auto

lemma findAll_seen:
  "map seen (findAll st clk) =
   map (\<lambda>r. (Some (row_id r), row_name r, row_email r, row_age r, True))
       (filter (\<lambda>r. row_is_active r = 1) (db_rows st))"
proof -
  have "map seen (findAll st clk) =
        map (\<lambda>(k, r). seen (new_User (fromRow r) (fst (clk k)) (snd (clk k))))
            (enumerate 0 (sql_select_active st))"
    by (simp add: findAll_def case_prod_unfold)
  also have "\<dots> = map (\<lambda>r. (Some (row_id r), row_name r, row_email r, row_age r, row_is_active r = 1))
                     (sql_select_active st)"
    by (rule map_enumerate) (simp add: seen_def read_back_fields)
  also have "\<dots> = map (\<lambda>r. (Some (row_id r), row_name r, row_email r, row_age r, True))
                     (filter (\<lambda>r. row_is_active r = 1) (db_rows st))"
    unfolding sql_select_active_def by (rule map_cong [OF refl]) simp
  finally show ?thesis .
qed

subsection \<open>The controller's update\<close>

lemma update_result:
  assumes inv: "store_inv st" and f: "findById st (parseInt_str i) n1 n2 = Some user"
  shows "update st i body n1 n2 n3 =
     (if email_conflict st user body then (Conflict400 EmailTaken, st)
      else if \<not> valid (validate (apply_body user body))
      then (Invalid400 (errors (validate (apply_body user body))), st)
      else (Ok200 (toPublicJSON ((apply_body user body)\<lparr>u_updated_at := n3\<rparr>)),
            st\<lparr>db_rows := map (write_row (parseInt_str i) (apply_body user body) n3) (db_rows st)\<rparr>))"
proof (cases "email_conflict st user body")
  case True
  then show ?thesis by (simp add: update_unfold f)
next
  case False
  from save_update_row [OF inv f False, of n3] show ?thesis
    by (simp add: update_unfold f False)
qed

lemma update_not_found:
  "findById st (parseInt_str i) n1 n2 = None \<Longrightarrow> update st i body n1 n2 n3 = (NotFound404, st)"
  by (simp add: update_unfold)

lemma found_user_row:
  assumes inv: "store_inv st" and f: "findById st x n1 n2 = Some user"
    and r: "r \<in> set (db_rows st)"
  shows "Some (row_id r) = u_id user \<Longrightarrow> row_email r = u_email user"
    and "Some (row_id r) = u_id user \<longleftrightarrow> num_of_int (row_id r) = x"
proof -
  from findById_Some [OF f] obtain r0 where r0: "r0 \<in> set (db_rows st)"
    and x: "num_of_int (row_id r0) = x" and u: "user = new_User (fromRow r0) n1 n2" by blast
  have id: "u_id user = Some (row_id r0)" and e: "u_email user = row_email r0"
    by (simp_all add: u read_back_fields)
  show "Some (row_id r) = u_id user \<Longrightarrow> row_email r = u_email user"
    using same_id_same_row [OF inv r r0] by (simp add: id e)
  show "Some (row_id r) = u_id user \<longleftrightarrow> num_of_int (row_id r) = x"
    using x by (auto simp: id)
qed

lemmas update_eval_defs =
  update_def parseInt_str_1 toPublicJSON_def

lemma find_ana: "findById db_two (parseInt_str ''1'') t0 t0 =
   Some \<lparr>u_id = Some 1, u_name = ''Ana Silva'', u_email = ''ana@test.com'',
          u_password = None, u_age = Some (Fin 30), u_is_active = True,
          u_created_at = t0, u_updated_at = t0\<rparr>"
  by (simp add: eval_defs update_eval_defs)

text \<open>
  A new email that is the record's own in another letter case is refused as a conflict:
  the record's own row matches it in \<open>emailExists\<close>, and the comparison
  \<open>email !== user.email\<close> that should exclude the record itself is exact.
\<close>

lemma update_own_case_variant:
  "update db_two ''1'' \<lparr>b_name = TUndefined, b_email = TStr ''Ana@Test.com'', b_age = JUndefined\<rparr>
     t1 t1 t1 = (Conflict400 EmailTaken, db_two)"
  by (simp add: eval_defs update_eval_defs)

lemma falsy_name_absent:
  assumes "\<not> truthy_text (b_name body)"
  shows "apply_body user (body\<lparr>b_name := TUndefined\<rparr>) = apply_body user body"
    and "email_conflict st user (body\<lparr>b_name := TUndefined\<rparr>) = email_conflict st user body"
  using assms by (simp_all add: apply_body_def email_conflict_def)

lemma falsy_email_absent:
  assumes "\<not> truthy_text (b_email body)"
  shows "apply_body user (body\<lparr>b_email := TUndefined\<rparr>) = apply_body user body"
    and "email_conflict st user (body\<lparr>b_email := TUndefined\<rparr>) = email_conflict st user body"
  using assms by (simp_all add: apply_body_def email_conflict_def)

lemma update_falsy_name:
  assumes "\<not> truthy_text (b_name body)"
  shows "update st i body n1 n2 n3 = update st i (body\<lparr>b_name := TUndefined\<rparr>) n1 n2 n3"
  unfolding update_unfold falsy_name_absent [OF assms] by (rule refl)

lemma update_falsy_email:
  assumes "\<not> truthy_text (b_email body)"
  shows "update st i body n1 n2 n3 = update st i (body\<lparr>b_email := TUndefined\<rparr>) n1 n2 n3"
  unfolding update_unfold falsy_email_absent [OF assms] by (rule refl)

lemma update_state:
  assumes inv: "store_inv st"
  shows "snd (update st i body n1 n2 n3) = st \<or>
         (\<exists>user. findById st (parseInt_str i) n1 n2 = Some user \<and>
            snd (update st i body n1 n2 n3) =
              st\<lparr>db_rows := map (write_row (parseInt_str i) (apply_body user body) n3) (db_rows st)\<rparr>)"
proof (cases "findById st (parseInt_str i) n1 n2")
  case None
  then show ?thesis by (simp add: update_not_found)
next
  case (Some user)
  show ?thesis unfolding update_result [OF inv Some] using Some by simp
qed

lemma write_row_other: "num_of_int (row_id r) \<noteq> x \<Longrightarrow> write_row x u now r = r"
  by (simp add: write_row_def)

lemma write_row_kept:
  assumes inv: "store_inv st" and f: "findById st x n1 n2 = Some user"
    and r: "r \<in> set (db_rows st)"
  shows "u_name u = u_name user \<Longrightarrow> row_name (write_row x u now r) = row_name r"
    and "u_email u = u_email user \<Longrightarrow> row_email (write_row x u now r) = row_email r"
proof -
  from findById_Some [OF f] obtain r0 where r0: "r0 \<in> set (db_rows st)"
    and x: "num_of_int (row_id r0) = x" and u: "user = new_User (fromRow r0) n1 n2" by blast
  have same: "r = r0" if "num_of_int (row_id r) = x"
  proof -
    from that x have "num_of_int (row_id r) = num_of_int (row_id r0)" by simp
    then have "row_id r = row_id r0" by (simp only: num_of_int_inj)
    then show ?thesis by (rule same_id_same_row [OF inv r r0])
  qed
  show "u_name u = u_name user \<Longrightarrow> row_name (write_row x u now r) = row_name r"
    using same by (cases "num_of_int (row_id r) = x") (simp_all add: write_row_def u read_back_fields)
  show "u_email u = u_email user \<Longrightarrow> row_email (write_row x u now r) = row_email r"
    using same by (cases "num_of_int (row_id r) = x") (simp_all add: write_row_def u read_back_fields)
qed

lemma update_keeps_name:
  assumes inv: "store_inv st" and falsy: "\<not> truthy_text (b_name body)"
  shows "map row_name (db_rows (snd (update st i body n1 n2 n3))) = map row_name (db_rows st)"
proof -
  from update_state [OF inv, of i body n1 n2 n3]
  consider "snd (update st i body n1 n2 n3) = st"
    | user where "findById st (parseInt_str i) n1 n2 = Some user"
        "snd (update st i body n1 n2 n3) =
           st\<lparr>db_rows := map (write_row (parseInt_str i) (apply_body user body) n3) (db_rows st)\<rparr>"
    by blast
  then show ?thesis
  proof cases
    case 1
    then show ?thesis by simp
  next
    case 2
    have n: "u_name (apply_body user body) = u_name user" using falsy by (simp add: apply_body_name)
    show ?thesis unfolding 2(2)
      by (simp add: write_row_kept(1) [OF inv 2(1) _ n])
  qed
qed

lemma update_keeps_email:
  assumes inv: "store_inv st" and falsy: "\<not> truthy_text (b_email body)"
  shows "map row_email (db_rows (snd (update st i body n1 n2 n3))) = map row_email (db_rows st)"
proof -
  from update_state [OF inv, of i body n1 n2 n3]
  consider "snd (update st i body n1 n2 n3) = st"
    | user where "findById st (parseInt_str i) n1 n2 = Some user"
        "snd (update st i body n1 n2 n3) =
           st\<lparr>db_rows := map (write_row (parseInt_str i) (apply_body user body) n3) (db_rows st)\<rparr>"
    by blast
  then show ?thesis
  proof cases
    case 1
    then show ?thesis by simp
  next
    case 2
    have n: "u_email (apply_body user body) = u_email user" using falsy by (simp add: apply_body_email)
    show ?thesis unfolding 2(2)
      by (simp add: write_row_kept(2) [OF inv 2(1) _ n])
  qed
qed

lemma update_frame:
  assumes inv: "store_inv st"
  shows "db_seq (snd (update st i body n1 n2 n3)) = db_seq st"
    and "map row_id (db_rows (snd (update st i body n1 n2 n3))) = map row_id (db_rows st)"
    and "map row_password (db_rows (snd (update st i body n1 n2 n3))) = map row_password (db_rows st)"
    and "map row_is_active (db_rows (snd (update st i body n1 n2 n3))) = map row_is_active (db_rows st)"
    and "map row_created_at (db_rows (snd (update st i body n1 n2 n3))) = map row_created_at (db_rows st)"
    and "\<forall>k<length (db_rows st). num_of_int (row_id (db_rows st ! k)) \<noteq> parseInt_str i \<longrightarrow>
           db_rows (snd (update st i body n1 n2 n3)) ! k = db_rows st ! k"
  using update_state [OF inv, of i body n1 n2 n3]
  by (auto simp: o_def write_row_other)

lemma validate_NaN_like_none:
  "valid (validate (u\<lparr>u_age := Some NaN\<rparr>)) = valid (validate (u\<lparr>u_age := None\<rparr>))"
  by (simp add: validate_valid validate_errors js_gt_def)

lemma validate_age_same: "valid (validate (u\<lparr>u_age := u_age u\<rparr>)) = valid (validate u)"
  by simp

lemma update_all_falsy:
  assumes inv: "store_inv st" and f: "findById st (parseInt_str i) n1 n2 = Some user"
    and v: "valid (validate user)"
    and fn: "\<not> truthy_text (b_name body)" and fe: "\<not> truthy_text (b_email body)"
  shows "b_age body = JUndefined \<Longrightarrow>
          update st i body n1 n2 n3 =
            (Ok200 (toPublicJSON (user\<lparr>u_updated_at := n3\<rparr>)),
             st\<lparr>db_rows := map (write_row (parseInt_str i) user n3) (db_rows st)\<rparr>)"
    and "b_age body = JNull \<Longrightarrow>
          update st i body n1 n2 n3 =
            (Ok200 (toPublicJSON (user\<lparr>u_age := Some NaN, u_updated_at := n3\<rparr>)),
             st\<lparr>db_rows := map (write_row (parseInt_str i) (user\<lparr>u_age := Some NaN\<rparr>) n3)
                               (db_rows st)\<rparr>)"
proof -
  have nc: "\<not> email_conflict st user body" using fe by (simp add: email_conflict_def)
  have vn: "valid (validate (user\<lparr>u_age := Some NaN\<rparr>))"
  proof -
    have "AgeRange \<notin> set (errors (validate user))" using v by (simp add: validate_valid)
    then have "valid (validate (user\<lparr>u_age := None\<rparr>))"
      using v by (cases "u_age user") (auto simp: validate_valid validate_errors split: if_splits)
    then show ?thesis by (simp only: validate_NaN_like_none)
  qed
  show "update st i body n1 n2 n3 =
            (Ok200 (toPublicJSON (user\<lparr>u_updated_at := n3\<rparr>)),
             st\<lparr>db_rows := map (write_row (parseInt_str i) user n3) (db_rows st)\<rparr>)"
    if "b_age body = JUndefined"
  proof -
    have a: "apply_body user body = user" using fn fe that by (simp add: apply_body_def)
    show ?thesis unfolding update_result [OF inv f] a using nc v by simp
  qed
  show "update st i body n1 n2 n3 =
            (Ok200 (toPublicJSON (user\<lparr>u_age := Some NaN, u_updated_at := n3\<rparr>)),
             st\<lparr>db_rows := map (write_row (parseInt_str i) (user\<lparr>u_age := Some NaN\<rparr>) n3)
                               (db_rows st)\<rparr>)"
    if "b_age body = JNull"
  proof -
    have a: "apply_body user body = user\<lparr>u_age := Some NaN\<rparr>"
      using fn fe that by (simp add: apply_body_def)
    show ?thesis unfolding update_result [OF inv f] a using nc vn by simp
  qed
qed

lemma update_age_applied:
  assumes inv: "store_inv st" and a: "b_age body \<noteq> JUndefined"
    and ok: "fst (update st i body n1 n2 n3) = Ok200 p"
  shows "pub_age p = Some (parseInt (b_age body))"
proof (cases "findById st (parseInt_str i) n1 n2")
  case None
  then show ?thesis using ok by (simp add: update_not_found)
next
  case (Some user)
  have "p = toPublicJSON ((apply_body user body)\<lparr>u_updated_at := n3\<rparr>)"
    using ok unfolding update_result [OF inv Some] by (simp split: if_splits)
  then show ?thesis using a by (simp add: toPublicJSON_def apply_body_age)
qed

lemma write_row_NaN:
  "row_age (write_row x (u\<lparr>u_age := Some NaN\<rparr>) now r) =
     (if num_of_int (row_id r) = x then None else row_age r)"
  by (simp add: write_row_def bind_num_def)

text \<open>The age that a successful update stores, and what a refused one leaves.\<close>

lemma bind_num_cases:
  "bind_num (Some NaN) = None"
  "a \<noteq> NaN \<Longrightarrow> bind_num (Some a) = Some a"
  "bind_num None = None"
  by (cases a; simp add: bind_num_def)+

lemma write_row_stores:
  "row_age (write_row x u now r) =
     (if num_of_int (row_id r) = x then bind_num (u_age u) else row_age r)"
  and write_row_id: "row_id (write_row x u now r) = row_id r"
  by (simp_all add: write_row_def)

lemma write_row_age_kept:
  assumes inv: "store_inv st" and f: "findById st x n1 n2 = Some user"
    and r: "r \<in> set (db_rows st)" and same: "u_age u = u_age user"
  shows "row_age (write_row x u now r) = row_age r"
proof (cases "num_of_int (row_id r) = x")
  case False
  then show ?thesis by (simp add: write_row_other)
next
  case True
  from findById_Some [OF f] obtain r0 where r0: "r0 \<in> set (db_rows st)"
    and x: "num_of_int (row_id r0) = x" and u: "user = new_User (fromRow r0) n1 n2" by blast
  from True x have "num_of_int (row_id r) = num_of_int (row_id r0)" by simp
  then have "row_id r = row_id r0" by (simp only: num_of_int_inj)
  then have "r = r0" by (rule same_id_same_row [OF inv r r0])
  then have age: "u_age u = row_age r" using same by (simp add: u read_back_fields)
  have "row_age r \<noteq> Some NaN" using store_invD(6) [OF inv r] .
  then have "bind_num (row_age r) = row_age r"
    by (cases "row_age r") (auto simp: bind_num_def split: jsnum.splits)
  then show ?thesis using True by (simp add: write_row_stores age)
qed

lemma update_keeps_age:
  assumes inv: "store_inv st" and undef: "b_age body = JUndefined"
  shows "map row_age (db_rows (snd (update st i body n1 n2 n3))) = map row_age (db_rows st)"
proof -
  from update_state [OF inv, of i body n1 n2 n3]
  consider "snd (update st i body n1 n2 n3) = st"
    | user where "findById st (parseInt_str i) n1 n2 = Some user"
        "snd (update st i body n1 n2 n3) =
           st\<lparr>db_rows := map (write_row (parseInt_str i) (apply_body user body) n3) (db_rows st)\<rparr>"
    by blast
  then show ?thesis
  proof cases
    case 1
    then show ?thesis by simp
  next
    case 2
    have a: "u_age (apply_body user body) = u_age user" using undef by (simp add: apply_body_age)
    show ?thesis unfolding 2(2)
      by (simp add: write_row_age_kept [OF inv 2(1) _ a])
  qed
qed

lemma update_refused:
  assumes inv: "store_inv st" and no: "\<forall>p. fst (update st i body n1 n2 n3) \<noteq> Ok200 p"
  shows "snd (update st i body n1 n2 n3) = st"
proof (cases "findById st (parseInt_str i) n1 n2")
  case None
  then show ?thesis by (simp add: update_not_found)
next
  case (Some user)
  show ?thesis using no unfolding update_result [OF inv Some] by (simp split: if_splits)
qed

lemma update_age_stored:
  assumes inv: "store_inv st" and a: "b_age body \<noteq> JUndefined"
    and ok: "fst (update st i body n1 n2 n3) = Ok200 p"
  shows "\<forall>r\<in>set (db_rows (snd (update st i body n1 n2 n3))).
           num_of_int (row_id r) = parseInt_str i \<longrightarrow>
           row_age r = bind_num (Some (parseInt (b_age body)))"
    and "\<exists>r\<in>set (db_rows (snd (update st i body n1 n2 n3))).
           num_of_int (row_id r) = parseInt_str i"
proof -
  obtain user where f: "findById st (parseInt_str i) n1 n2 = Some user"
    using ok by (cases "findById st (parseInt_str i) n1 n2") (auto simp: update_not_found)
  let ?u = "apply_body user body"
  have st': "snd (update st i body n1 n2 n3) =
      st\<lparr>db_rows := map (write_row (parseInt_str i) ?u n3) (db_rows st)\<rparr>"
    using ok unfolding update_result [OF inv f] by (simp split: if_splits)
  have age: "u_age ?u = Some (parseInt (b_age body))" using a by (simp add: apply_body_age)
  show "\<forall>r\<in>set (db_rows (snd (update st i body n1 n2 n3))).
           num_of_int (row_id r) = parseInt_str i \<longrightarrow>
           row_age r = bind_num (Some (parseInt (b_age body)))"
    unfolding st' by (auto simp: write_row_stores write_row_id age)
  from findById_Some [OF f] obtain r0 where r0: "r0 \<in> set (db_rows st)"
    and x: "num_of_int (row_id r0) = parseInt_str i" by blast
  have "write_row (parseInt_str i) ?u n3 r0 \<in> set (db_rows (snd (update st i body n1 n2 n3)))"
    unfolding st' using r0 by simp
  moreover have "num_of_int (row_id (write_row (parseInt_str i) ?u n3 r0)) = parseInt_str i"
    using x by (simp only: write_row_id)
  ultimately show "\<exists>r\<in>set (db_rows (snd (update st i body n1 n2 n3))).
           num_of_int (row_id r) = parseInt_str i"
    by blast
qed

subsection \<open>Reading a created record back\<close>

lemma candidate_fields:
  "u_id (candidate d n1 n2) = None"
  "u_name (candidate d n1 n2) = in_name d"
  "u_email (candidate d n1 n2) = in_email d"
  "u_password (candidate d n1 n2) = or_null (in_password d)"
  "u_age (candidate d n1 n2) = in_age d"
  "u_is_active (candidate d n1 n2) = True"
  "u_created_at (candidate d n1 n2) = n1"
  "u_updated_at (candidate d n1 n2) = n2"
  by (simp_all add: candidate_def new_User_def as_UserData_def or_now_def)

lemma select_new_row:
  assumes "row_id r = next_rowid st" and "row_is_active r = 1"
  shows "sql_select_by_id (st\<lparr>db_rows := db_rows st @ [r], db_seq := s\<rparr>) (num_of_int (next_rowid st))
         = [r]"
proof -
  have "filter (\<lambda>r'. num_of_int (row_id r') = num_of_int (next_rowid st) \<and> row_is_active r' = 1)
          (db_rows st) = []"
    unfolding filter_empty_conv using next_rowid_fresh [of _ st] by fastforce
  then show ?thesis using assms by (simp add: sql_select_by_id_def)
qed

text \<open>
  A record that \<open>create\<close> has stored is found by its identifier with the same public
  view, when its age is not NaN (the clock's readings are never empty strings).
\<close>

lemma create_find_roundtrip:
  assumes c: "create st d n1 n2 n3 = Some (res, st')" and s: "cr_success res"
    and t: "n1 \<noteq> []" "n3 \<noteq> []" and a: "in_age d \<noteq> Some NaN"
  shows "\<exists>u i v. cr_user res = Some u \<and> u_id u = Some i \<and>
           findById st' (num_of_int i) m1 m2 = Some v \<and> toPublicJSON v = toPublicJSON u"
proof -
  let ?c = "candidate d n1 n2"
  have v: "valid (validate ?c)" and ne: "\<not> emailExists st (u_email ?c)"
    using c s unfolding candidate_def
    by (auto simp: create_def Let_def split: if_splits)
  from create_insert [OF v [unfolded candidate_def] ne [unfolded candidate_def], of n3] c
  have res: "res = \<lparr>cr_success = True,
                    cr_user = Some (?c\<lparr>u_updated_at := n3, u_id := Some (next_rowid st)\<rparr>),
                    cr_errors = None\<rparr>"
    and st': "st' = st\<lparr>db_rows := db_rows st @ [new_row st ?c n3], db_seq := next_rowid st\<rparr>"
    by (simp_all add: candidate_def)
  have sel: "sql_select_by_id st' (num_of_int (next_rowid st)) = [new_row st ?c n3]"
    unfolding st' by (rule select_new_row) (simp_all add: new_row_def candidate_fields)
  have f: "findById st' (num_of_int (next_rowid st)) m1 m2 = Some (new_User (fromRow (new_row st ?c n3)) m1 m2)"
    by (simp add: findById_def sel)
  have p: "toPublicJSON (new_User (fromRow (new_row st ?c n3)) m1 m2)
           = toPublicJSON (?c\<lparr>u_updated_at := n3, u_id := Some (next_rowid st)\<rparr>)"
    using t a
    by (simp add: toPublicJSON_def read_back_fields new_row_def candidate_fields or_now_def
        bind_num_id)
  show ?thesis using f p by (simp add: res)
qed

subsection \<open>The two variants, call by call\<close>

lemma find_rel:
  assumes "list_all2 R xs ys" and "\<And>x y. R x y \<Longrightarrow> P x = Q y"
  shows "rel_option R (find P xs) (find Q ys)"
  using assms by (induction rule: list_all2_induct) auto

lemma filter_rel:
  assumes "list_all2 R xs ys" and "\<And>x y. R x y \<Longrightarrow> P x = Q y"
  shows "list_all2 R (filter P xs) (filter Q ys)"
  using assms by (induction rule: list_all2_induct) auto

lemma list_ex_rel:
  assumes "list_all2 R xs ys" and "\<And>x y. R x y \<Longrightarrow> P x = Q y"
  shows "list_ex P xs = list_ex Q ys"
  using assms by (induction rule: list_all2_induct) auto

lemma filter_head_find:
  "(case filter P xs of [] \<Rightarrow> None | x # _ \<Rightarrow> Some (h x)) = map_option h (find P xs)"
  by (induction xs) auto

lemma seen_read:
  "seen (new_User (fromRow r) n1 n2) =
     (Some (row_id r), row_name r, row_email r, row_age r, row_is_active r = 1)"
  by (simp add: seen_def read_back_fields)

lemma shows_row_read: "shows_row r u \<Longrightarrow> seen (new_User (fromRow r) n1 n2) = seen u"
  by (simp add: shows_row_def seen_read)

lemma shows_row_fields:
  assumes "shows_row r u"
  shows "u_id u = Some (row_id r)" "u_name u = row_name r" "u_email u = row_email r"
    "u_age u = row_age r" "u_is_active u = (row_is_active r = 1)"
  using assms by (simp_all add: shows_row_def seen_def)

lemma map_seen_rel:
  "list_all2 shows_row rs us \<Longrightarrow>
   map (\<lambda>r. (Some (row_id r), row_name r, row_email r, row_age r, row_is_active r = 1)) rs
     = map seen us"
  by (induction rule: list_all2_induct) (auto simp: shows_row_def)

lemma find_seen_rel:
  assumes "list_all2 shows_row rs us" and "\<And>r u. shows_row r u \<Longrightarrow> P r = Q u"
  shows "map_option (\<lambda>r. seen (new_User (fromRow r) n1 n2)) (find P rs) = map_option seen (find Q us)"
proof -
  from find_rel [OF assms] have "rel_option shows_row (find P rs) (find Q us)" .
  then show ?thesis
    by (cases "find P rs"; cases "find Q us") (simp_all add: shows_row_read)
qed

lemma plain_case_eq:
  "plain_case a \<Longrightarrow> plain_case b \<Longrightarrow> (toLowerCase a = toLowerCase b) = (LOWER a = LOWER b)"
  by (simp add: plain_case_def)

lemma sim_findById:
  assumes "sim rej st ms"
  shows "map_option seen (findById st x n1 n2) = map_option seen (findById_mem ms x)"
proof -
  have l: "list_all2 shows_row (db_rows st) (users ms)" using assms by (simp add: sim_def)
  have "map_option seen (findById st x n1 n2) =
        map_option (\<lambda>r. seen (new_User (fromRow r) n1 n2))
          (find (\<lambda>r. num_of_int (row_id r) = x \<and> row_is_active r = 1) (db_rows st))"
    unfolding findById_def sql_select_by_id_def
    by (simp add: filter_head_find [symmetric] option.map_comp o_def split: list.splits)
  also have "\<dots> = map_option seen (find (\<lambda>u. id_is x u \<and> u_is_active u) (users ms))"
    by (rule find_seen_rel [OF l]) (simp add: shows_row_fields id_is_def)
  finally show ?thesis by (simp add: findById_mem_def)
qed

lemma sim_parts:
  assumes "sim rej st ms"
  shows "list_all2 shows_row (db_rows st) (users ms)"
    and "\<not> rej \<Longrightarrow> nextId ms = next_rowid st"
    and "store_inv st"
    and "\<And>r. r \<in> set (db_rows st) \<Longrightarrow> plain_case (row_email r)"
  using assms by (auto simp: sim_def list_all_iff)

lemma shows_row_email_match:
  assumes "shows_row r u" and "plain_case (row_email r)" and "plain_case e"
  shows "(LOWER (row_email r) = LOWER e) = (toLowerCase (u_email u) = toLowerCase e)"
  using assms by (simp add: shows_row_fields plain_case_eq)

lemma list_all2_and_left:
  "list_all2 R xs ys \<Longrightarrow> (\<And>x. x \<in> set xs \<Longrightarrow> S x) \<Longrightarrow> list_all2 (\<lambda>x y. R x y \<and> S x) xs ys"
  by (induction rule: list_all2_induct) auto

lemma sim_rows_plain:
  assumes "sim rej st ms"
  shows "list_all2 (\<lambda>r u. shows_row r u \<and> plain_case (row_email r)) (db_rows st) (users ms)"
  using list_all2_and_left [OF sim_parts(1) [OF assms], of "\<lambda>r. plain_case (row_email r)"]
    sim_parts(4) [OF assms] by blast

lemma find_seen_rel':
  assumes "list_all2 (\<lambda>r u. shows_row r u \<and> S r) rs us"
    and "\<And>r u. shows_row r u \<Longrightarrow> S r \<Longrightarrow> P r = Q u"
  shows "map_option (\<lambda>r. seen (new_User (fromRow r) n1 n2)) (find P rs) = map_option seen (find Q us)"
proof -
  have "rel_option (\<lambda>r u. shows_row r u \<and> S r) (find P rs) (find Q us)"
    by (rule find_rel [OF assms(1)]) (simp add: assms(2))
  then show ?thesis
    by (cases "find P rs"; cases "find Q us") (simp_all add: shows_row_read)
qed

lemma sim_findByEmail:
  assumes s: "sim rej st ms" and e: "plain_case e"
  shows "map_option seen (findByEmail st e n1 n2) = map_option seen (findByEmail_mem ms e)"
proof -
  have "map_option seen (findByEmail st e n1 n2) =
        map_option (\<lambda>r. seen (new_User (fromRow r) n1 n2))
          (find (\<lambda>r. LOWER (row_email r) = LOWER e \<and> row_is_active r = 1) (db_rows st))"
    unfolding findByEmail_def sql_select_by_email_def
    by (simp add: filter_head_find [symmetric] option.map_comp o_def split: list.splits)
  also have "\<dots> = map_option seen
      (find (\<lambda>u. toLowerCase (u_email u) = toLowerCase e \<and> u_is_active u) (users ms))"
    by (rule find_seen_rel' [OF sim_rows_plain [OF s]])
       (simp add: shows_row_email_match [OF _ _ e] shows_row_fields)
  finally show ?thesis by (simp add: findByEmail_mem_def)
qed

lemma sim_emailExists:
  assumes s: "sim rej st ms" and e: "plain_case e"
  shows "emailExists st e = emailExists_mem ms e"
proof -
  have "emailExists st e = list_ex (\<lambda>r. LOWER (row_email r) = LOWER e) (db_rows st)"
    by (simp add: emailExists_iff list_ex_iff)
  also have "\<dots> = list_ex (\<lambda>u. toLowerCase (u_email u) = toLowerCase e) (users ms)"
    by (rule list_ex_rel [OF sim_rows_plain [OF s]]) (simp add: shows_row_email_match [OF _ _ e])
  finally show ?thesis by (simp add: emailExists_mem_def)
qed

lemma sim_active:
  assumes s: "sim rej st ms"
  shows "list_all2 shows_row (filter (\<lambda>r. row_is_active r = 1) (db_rows st))
           (filter u_is_active (users ms))"
  by (rule filter_rel [OF sim_parts(1) [OF s]]) (simp add: shows_row_fields)

lemma sim_findAll:
  assumes s: "sim rej st ms"
  shows "map seen (findAll st clk) = map seen (findAll_mem ms)"
proof -
  have "map seen (findAll st clk) =
        map (\<lambda>r. (Some (row_id r), row_name r, row_email r, row_age r, row_is_active r = 1))
            (filter (\<lambda>r. row_is_active r = 1) (db_rows st))"
    unfolding findAll_seen by (rule map_cong [OF refl]) simp
  also have "\<dots> = map seen (filter u_is_active (users ms))"
    by (rule map_seen_rel [OF sim_active [OF s]])
  finally show ?thesis by (simp add: findAll_mem_def)
qed

lemma sim_count:
  assumes s: "sim rej st ms"
  shows "count st = count_mem ms"
  using list_all2_lengthD [OF sim_active [OF s]]
  by (simp add: count_def sql_count_active_def count_mem_def)

lemma findIndex_Some:
  "findIndex P xs = Some k \<Longrightarrow> k < length xs \<and> P (xs ! k)"
  by (induction xs arbitrary: k) (auto split: if_splits option.splits)

lemma findIndex_None: "findIndex P xs = None \<longleftrightarrow> (\<forall>x\<in>set xs. \<not> P x)"
  by (induction xs) (auto split: option.splits)

lemma next_rowid_deactivate:
  "next_rowid (st\<lparr>db_rows := map (deactivate x now) (db_rows st)\<rparr>) = next_rowid st"
  by (simp add: next_rowid_def o_def)

lemma shows_row_deactivated:
  "shows_row r u \<Longrightarrow>
   shows_row (r\<lparr>row_is_active := 0, row_updated_at := now\<rparr>)
             (u\<lparr>u_is_active := False, u_updated_at := now'\<rparr>)"
  by (simp add: shows_row_def seen_def)

lemma sim_delete:
  assumes s: "sim rej st ms"
  shows "\<exists>st'. delete st x n1 n2 n3 = Some (fst (delete_mem ms x m), st') \<and>
               sim rej st' (snd (delete_mem ms x m))"
proof -
  let ?Pm = "\<lambda>u. id_is x u \<and> u_is_active u"
  let ?Ps = "\<lambda>r. num_of_int (row_id r) = x \<and> row_is_active r = 1"
  have l: "list_all2 shows_row (db_rows st) (users ms)" by (rule sim_parts(1) [OF s])
  have inv: "store_inv st" by (rule sim_parts(3) [OF s])
  have len: "length (db_rows st) = length (users ms)" by (rule list_all2_lengthD [OF l])
  have corr: "?Ps (db_rows st ! j) = ?Pm (users ms ! j)" if "j < length (users ms)" for j
    using list_all2_nthD2 [OF l that] by (simp add: shows_row_fields id_is_def)
  show ?thesis
  proof (cases "findIndex ?Pm (users ms)")
    case None
    then have "\<And>u. u \<in> set (users ms) \<Longrightarrow> \<not> ?Pm u" by (simp add: findIndex_None)
    then have "\<And>j. j < length (users ms) \<Longrightarrow> \<not> ?Ps (db_rows st ! j)"
      using corr by simp
    then have "\<not> (\<exists>r\<in>set (db_rows st). ?Ps r)"
      by (metis in_set_conv_nth len)
    then have "findById st x n1 n2 = None" by (simp add: findById_None)
    then have "delete st x n1 n2 n3 = Some (False, st)" by (rule delete_absent)
    moreover have "delete_mem ms x m = (False, ms)" using None by (simp add: delete_mem_def)
    ultimately show ?thesis using s by simp
  next
    case (Some k)
    from findIndex_Some [OF Some] have k: "k < length (users ms)" and pk: "?Pm (users ms ! k)"
      by simp_all
    have psk: "?Ps (db_rows st ! k)" using corr [OF k] pk by simp
    have kin: "db_rows st ! k \<in> set (db_rows st)" using k len by simp
    then have "findById st x n1 n2 \<noteq> None" using psk by (auto simp: findById_None)
    then obtain u where u: "findById st x n1 n2 = Some u" by blast
    let ?st' = "st\<lparr>db_rows := map (deactivate x n3) (db_rows st)\<rparr>"
    let ?ms' = "ms\<lparr>users := (users ms)[k := (users ms ! k)\<lparr>u_is_active := False, u_updated_at := m\<rparr>]\<rparr>"
    have d: "delete st x n1 n2 n3 = Some (True, ?st')" by (rule delete_found [OF inv u])
    have dm: "delete_mem ms x m = (True, ?ms')" using Some by (simp add: delete_mem_def)
    have l': "list_all2 shows_row (db_rows ?st') (users ?ms')"
    proof (rule list_all2_all_nthI)
      show "length (db_rows ?st') = length (users ?ms')" using len by simp
    next
      fix j assume "j < length (db_rows ?st')"
      then have j: "j < length (users ms)" using len by simp
      have rel: "shows_row (db_rows st ! j) (users ms ! j)" by (rule list_all2_nthD2 [OF l j])
      show "shows_row (db_rows ?st' ! j) (users ?ms' ! j)"
      proof (cases "j = k")
        case True
        then show ?thesis using j len rel psk
          by (simp add: deactivate_def shows_row_deactivated)
      next
        case False
        have "row_id (db_rows st ! j) \<noteq> row_id (db_rows st ! k)"
          using store_invD(1) [OF inv] j k len False
          by (simp add: distinct_conv_nth)
        then have "num_of_int (row_id (db_rows st ! j)) \<noteq> x" using psk by auto
        then show ?thesis using j len rel False by (simp add: deactivate_def)
      qed
    qed
    have "sim rej ?st' ?ms'"
      unfolding sim_def
      using l' sim_parts(2) [OF s] inv_deactivate [OF inv, of x n3] sim_parts(4) [OF s]
      by (simp add: next_rowid_deactivate list_all_iff)
    then show ?thesis using d dm by simp
  qed
qed

lemma validate_mem_eq: "validate_mem u = validate u"
proof -
  have e: "\<And>P. (False \<or> P) = P" by simp
  show ?thesis unfolding validate_mem_def validate_def e by (rule refl)
qed

lemma validate_cong_fields:
  "u_name u = u_name v \<Longrightarrow> u_email u = u_email v \<Longrightarrow> u_age u = u_age v \<Longrightarrow>
   validate u = validate v"
  by (simp add: validate_def)

lemma age_or_null_id: "a \<noteq> Some (Fin 0) \<Longrightarrow> a \<noteq> Some NaN \<Longrightarrow> age_or_null a = a"
  by (auto simp: age_or_null_def truthy_num_def split: option.splits)

lemma new_User_mem_create:
  "new_User_mem ms (as_UserData d) m1 m2 = (born ms d m1 m2, ms\<lparr>nextId := nextId ms + 1\<rparr>)"
  by (simp add: born_def new_User_mem_def as_UserData_def)

lemma born_fields:
  "u_id (born ms d m1 m2) = Some (nextId ms)"
  "u_name (born ms d m1 m2) = in_name d"
  "u_email (born ms d m1 m2) = in_email d"
  "u_age (born ms d m1 m2) = age_or_null (in_age d)"
  "u_is_active (born ms d m1 m2) = True"
  by (simp_all add: born_def new_User_mem_def as_UserData_def)

lemma create_mem_unfold:
  "create_mem ms d m1 m2 m3 =
     (if \<not> valid (validate (born ms d m1 m2)) then
        (\<lparr>cr_success = False, cr_user = None,
          cr_errors = Some (errors (validate (born ms d m1 m2)))\<rparr>, ms\<lparr>nextId := nextId ms + 1\<rparr>)
      else if emailExists_mem ms (in_email d) then
        (\<lparr>cr_success = False, cr_user = None, cr_errors = Some [EmailTaken]\<rparr>,
         ms\<lparr>nextId := nextId ms + 1\<rparr>)
      else
        (\<lparr>cr_success = True,
          cr_user = Some (fst (save_mem (ms\<lparr>nextId := nextId ms + 1\<rparr>) (born ms d m1 m2) m3)),
          cr_errors = None\<rparr>,
         snd (save_mem (ms\<lparr>nextId := nextId ms + 1\<rparr>) (born ms d m1 m2) m3)))"
  by (simp add: create_mem_def new_User_mem_create validate_mem_eq born_fields
      emailExists_mem_def case_prod_unfold Let_def)

lemma save_mem_push:
  assumes "\<And>v. v \<in> set (users ms) \<Longrightarrow> u_id v \<noteq> u_id u"
  shows "save_mem ms u now = (u\<lparr>u_updated_at := now\<rparr>, ms\<lparr>users := users ms @ [u\<lparr>u_updated_at := now\<rparr>]\<rparr>)"
proof -
  have "findIndex (\<lambda>v. u_id v = u_id u) (users ms) = None"
    using assms by (simp add: findIndex_None)
  then show ?thesis by (simp add: save_mem_def Let_def)
qed

lemma next_rowid_insert:
  "row_id r = next_rowid st \<Longrightarrow>
   next_rowid (st\<lparr>db_rows := db_rows st @ [r], db_seq := next_rowid st\<rparr>) = next_rowid st + 1"
proof -
  assume r: "row_id r = next_rowid st"
  have "\<And>b. (\<forall>i\<in>set xs. i \<le> b) \<Longrightarrow> foldr max xs (b::int) = b" for xs
    by (induction xs) auto
  moreover have "\<forall>i\<in>set (map row_id (db_rows st @ [r])). i \<le> next_rowid st"
    using next_rowid_fresh [of _ st] r by (auto simp: less_imp_le)
  ultimately have "foldr max (map row_id (db_rows st @ [r])) (next_rowid st) = next_rowid st"
    by blast
  then show ?thesis by (simp add: next_rowid_def)
qed

lemma sim_create:
  assumes s: "sim rej st ms" and ok: "call_ok (Create d)"
    and adm: "\<forall>res st'. create st d n1 n2 n3 = Some (res, st') \<longrightarrow> cr_success res \<longrightarrow> \<not> rej"
  shows "\<exists>res st'. create st d n1 n2 n3 = Some (res, st') \<and>
           created res = created (fst (create_mem ms d m1 m2 m3)) \<and>
           sim (rej \<or> \<not> cr_success res) st' (snd (create_mem ms d m1 m2 m3))"
proof -
  let ?c = "candidate d n1 n2"
  let ?b = "born ms d m1 m2"
  let ?ms1 = "ms\<lparr>nextId := nextId ms + 1\<rparr>"
  have age: "age_or_null (in_age d) = in_age d" and nn: "in_age d \<noteq> Some NaN"
    and pe: "plain_case (in_email d)"
    using ok by (simp_all add: age_or_null_id)
  have val: "validate ?b = validate ?c"
    by (rule validate_cong_fields) (simp_all add: born_fields candidate_fields age)
  have ex: "emailExists_mem ms (in_email d) = emailExists st (in_email d)"
    by (rule sim_emailExists [OF s pe, symmetric])
  have l: "list_all2 shows_row (db_rows st) (users ms)" by (rule sim_parts(1) [OF s])
  have inv: "store_inv st" by (rule sim_parts(3) [OF s])
  have sim_rej: "sim True st ?ms1"
    using s by (simp add: sim_def)
  consider (invalid) "\<not> valid (validate ?c)"
    | (conflict) "valid (validate ?c)" "emailExists st (in_email d)"
    | (insert) "valid (validate ?c)" "\<not> emailExists st (in_email d)" by blast
  then show ?thesis
  proof cases
    case invalid
    have "create st d n1 n2 n3 =
      Some (\<lparr>cr_success = False, cr_user = None, cr_errors = Some (errors (validate ?c))\<rparr>, st)"
      using create_invalid [of d n1 n2 st n3] invalid by (simp add: candidate_def)
    moreover have "create_mem ms d m1 m2 m3 =
      (\<lparr>cr_success = False, cr_user = None, cr_errors = Some (errors (validate ?c))\<rparr>, ?ms1)"
      using invalid by (simp add: create_mem_unfold val)
    ultimately show ?thesis using sim_rej by simp
  next
    case conflict
    have "create st d n1 n2 n3 =
      Some (\<lparr>cr_success = False, cr_user = None, cr_errors = Some [EmailTaken]\<rparr>, st)"
      using create_conflict [of d n1 n2 st n3] conflict
      by (simp add: candidate_def [symmetric] candidate_fields)
    moreover have "create_mem ms d m1 m2 m3 =
      (\<lparr>cr_success = False, cr_user = None, cr_errors = Some [EmailTaken]\<rparr>, ?ms1)"
      using conflict by (simp add: create_mem_unfold val ex)
    ultimately show ?thesis using sim_rej by simp
  next
    case insert
    let ?u' = "?c\<lparr>u_updated_at := n3, u_id := Some (next_rowid st)\<rparr>"
    let ?r = "new_row st ?c n3"
    let ?st' = "st\<lparr>db_rows := db_rows st @ [?r], db_seq := next_rowid st\<rparr>"
    have c: "create st d n1 n2 n3 =
       Some (\<lparr>cr_success = True, cr_user = Some ?u', cr_errors = None\<rparr>, ?st')"
      using create_insert [of d n1 n2 st n3] insert
      by (simp add: candidate_def [symmetric] candidate_fields)
    from adm c have nrej: "\<not> rej" by simp
    then have nid: "nextId ms = next_rowid st" by (rule sim_parts(2) [OF s])
    have fresh: "u_id v \<noteq> u_id ?b" if "v \<in> set (users ms)" for v
    proof -
      from that obtain j where j: "j < length (users ms)" and v: "v = users ms ! j"
        by (auto simp: in_set_conv_nth)
      have rel: "shows_row (db_rows st ! j) v" unfolding v by (rule list_all2_nthD2 [OF l j])
      have "db_rows st ! j \<in> set (db_rows st)" using j list_all2_lengthD [OF l] by simp
      from next_rowid_fresh [OF this] show ?thesis
        by (simp add: shows_row_fields(1) [OF rel] born_fields nid)
    qed
    let ?bm = "?b\<lparr>u_updated_at := m3\<rparr>"
    have sv: "save_mem ?ms1 ?b m3 = (?bm, ?ms1\<lparr>users := users ms @ [?bm]\<rparr>)"
      using save_mem_push [of ?ms1 ?b m3] fresh by simp
    have cm: "create_mem ms d m1 m2 m3 =
       (\<lparr>cr_success = True, cr_user = Some ?bm, cr_errors = None\<rparr>,
        ?ms1\<lparr>users := users ms @ [?bm]\<rparr>)"
      using insert by (simp add: create_mem_unfold val ex sv)
    have seen_eq: "seen ?u' = seen ?bm"
      by (simp add: seen_def candidate_fields born_fields age nid)
    have rel_new: "shows_row ?r ?bm"
      by (simp add: shows_row_def seen_def new_row_def candidate_fields born_fields age nid
          bind_num_id [OF nn])
    have l': "list_all2 shows_row (db_rows ?st') (users (?ms1\<lparr>users := users ms @ [?bm]\<rparr>))"
      using l rel_new by (simp add: list_all2_appendI)
    have nx: "next_rowid ?st' = next_rowid st + 1"
      by (rule next_rowid_insert) (simp add: new_row_def)
    have inv': "store_inv ?st'" by (rule inv_create [OF inv c])
    have pl: "list_all (\<lambda>r. plain_case (row_email r)) (db_rows ?st')"
      using sim_parts(4) [OF s] pe by (simp add: list_all_iff new_row_def candidate_fields)
    have "sim False ?st' (?ms1\<lparr>users := users ms @ [?bm]\<rparr>)"
      unfolding sim_def using l' nx nid inv' pl by simp
    then show ?thesis using c cm seen_eq nrej by (simp add: created_def)
  qed
qed

lemma succeeded_created [simp]: "succeeded (created res) = cr_success res"
  by (simp add: created_def)

lemma sim_step:
  assumes s: "sim rej st ms" and ok: "call_ok c"
    and adm: "\<not> (is_create c \<and> succeeded (fst (step_sql k st c)) \<and> rej)"
  shows "fst (step_sql k st c) = fst (step_mem k' ms c) \<and>
         sim (rej \<or> (is_create c \<and> \<not> succeeded (fst (step_sql k st c))))
             (snd (step_sql k st c)) (snd (step_mem k' ms c))"
proof (cases c)
  case (Create d)
  have a: "\<forall>res st'. create st d (k 0) (k 1) (k 2) = Some (res, st') \<longrightarrow> cr_success res \<longrightarrow> \<not> rej"
    using adm by (auto simp: Create step_sql_def)
  from sim_create [where ?n1.0 = "k 0" and ?n2.0 = "k 1" and ?n3.0 = "k 2" and ?m1.0 = "k' 0"
      and ?m2.0 = "k' 1" and ?m3.0 = "k' 2", OF s ok [unfolded Create] a]
  obtain res st' where c: "create st d (k 0) (k 1) (k 2) = Some (res, st')"
    and o: "created res = created (fst (create_mem ms d (k' 0) (k' 1) (k' 2)))"
    and s': "sim (rej \<or> \<not> cr_success res) st' (snd (create_mem ms d (k' 0) (k' 1) (k' 2)))"
    by blast
  have f1: "step_sql k st c = (created res, st')"
    using c by (simp add: Create step_sql_def)
  have f2: "step_mem k' ms c =
      (created (fst (create_mem ms d (k' 0) (k' 1) (k' 2))), snd (create_mem ms d (k' 0) (k' 1) (k' 2)))"
    by (simp add: Create step_mem_def case_prod_unfold Let_def)
  show ?thesis unfolding f1 f2 fst_conv snd_conv
  proof (intro conjI)
    show "created res = created (fst (create_mem ms d (k' 0) (k' 1) (k' 2)))" by (rule o)
    show "sim (rej \<or> (is_create c \<and> \<not> succeeded (created res))) st'
            (snd (create_mem ms d (k' 0) (k' 1) (k' 2)))"
      using s' by (simp add: Create)
  qed
next
  case FindAll
  then show ?thesis using s sim_findAll [OF s] by (simp add: step_sql_def step_mem_def)
next
  case (FindById x)
  then show ?thesis using s sim_findById [OF s] by (simp add: step_sql_def step_mem_def)
next
  case (FindByEmail e)
  then show ?thesis using s ok sim_findByEmail [OF s] by (simp add: step_sql_def step_mem_def)
next
  case (EmailExists e)
  then show ?thesis using s ok sim_emailExists [OF s] by (simp add: step_sql_def step_mem_def)
next
  case (Delete x)
  from sim_delete [OF s, of x "k 0" "k 1" "k 2" "k' 0"]
  obtain st' where d: "delete st x (k 0) (k 1) (k 2) = Some (fst (delete_mem ms x (k' 0)), st')"
    and s': "sim rej st' (snd (delete_mem ms x (k' 0)))" by blast
  show ?thesis using s' d by (simp add: Delete step_sql_def step_mem_def case_prod_unfold Let_def)
next
  case Count
  then show ?thesis using s sim_count [OF s] by (simp add: step_sql_def step_mem_def)
qed

lemma sim_empty: "sim False empty_db empty_mem"
  by (simp add: sim_def empty_db_def empty_mem_def next_rowid_def store_inv_def)


lemmas trace_eval_defs =
  step_sql_def step_mem_def created_def seen_def create_mem_def new_User_mem_def
  validate_mem_def age_or_null_def truthy_num_def emailExists_mem_def toLowerCase_def
  lower_js_def latin1_upper_def latin1_lower_def save_mem_def delete_mem_def id_is_def
  findById_mem_def findByEmail_mem_def findAll_mem_def count_mem_def empty_mem_def
  plain_case_def findAll_def sql_select_active_def findByEmail_def sql_select_by_email_def
  count_def sql_count_active_def

lemma sample_admissible: "admissible (\<lambda>n j. t0) 0 empty_db False sample_calls"
  by (simp add: sample_calls_def eval_defs trace_eval_defs)

lemma sample_run:
  "run_sql (\<lambda>n j. t0) 0 empty_db sample_calls =
     [Created True (Some (Some 1, ''Ana Silva'', ''ana@test.com'', Some (Fin 30), True)) None,
      Created True (Some (Some 2, ''Bia Souza'', ''Bia@Test.com'', None, True)) None,
      Found (Some (Some 2, ''Bia Souza'', ''Bia@Test.com'', None, True)),
      Answer True,
      Listed [(Some 1, ''Ana Silva'', ''ana@test.com'', Some (Fin 30), True)],
      Counted 1,
      Created False None (Some [EmailTaken])]"
  by (simp add: sample_calls_def eval_defs trace_eval_defs)


text \<open>
  The variants differ on a capital letter outside ASCII: \<open>toLowerCase()\<close> folds U+00C9
  to U+00E9, \<open>LOWER()\<close> does not, so only the in-memory \<open>emailExists\<close> finds the email
  written with the other letter.
\<close>

lemma variants_differ_capital:
  "run_sql (\<lambda>n j. t0) 0 empty_db
      [Create (ana_input\<lparr>in_email := CHR 0xC9 # ''va@test.com''\<rparr>),
       EmailExists (CHR 0xE9 # ''va@test.com'')] =
     [Created True (Some (Some 1, ''Ana Silva'', CHR 0xC9 # ''va@test.com'', Some (Fin 30), True)) None,
      Answer False] \<and>
   run_mem (\<lambda>n j. t0) 0 empty_mem
      [Create (ana_input\<lparr>in_email := CHR 0xC9 # ''va@test.com''\<rparr>),
       EmailExists (CHR 0xE9 # ''va@test.com'')] =
     [Created True (Some (Some 1, ''Ana Silva'', CHR 0xC9 # ''va@test.com'', Some (Fin 30), True)) None,
      Answer True]"
  by (simp add: eval_defs trace_eval_defs)

subsection \<open>Identifiers\<close>

lemma mem_inv_fresh:
  assumes "mem_inv ms" and "v \<in> set (users ms)"
  shows "u_id v \<noteq> Some (nextId ms)"
  using assms by (auto simp: mem_inv_def list_all_iff split: option.splits)

lemma create_mem_users:
  assumes inv: "mem_inv ms"
  shows "users (snd (create_mem ms d m1 m2 m3)) = users ms \<and>
           \<not> cr_success (fst (create_mem ms d m1 m2 m3))
         \<or> users (snd (create_mem ms d m1 m2 m3)) =
             users ms @ [(born ms d m1 m2)\<lparr>u_updated_at := m3\<rparr>] \<and>
           cr_success (fst (create_mem ms d m1 m2 m3)) \<and>
           cr_user (fst (create_mem ms d m1 m2 m3)) = Some ((born ms d m1 m2)\<lparr>u_updated_at := m3\<rparr>)"
proof -
  have sv: "save_mem (ms\<lparr>nextId := nextId ms + 1\<rparr>) (born ms d m1 m2) m3 =
      ((born ms d m1 m2)\<lparr>u_updated_at := m3\<rparr>,
       ms\<lparr>nextId := nextId ms + 1, users := users ms @ [(born ms d m1 m2)\<lparr>u_updated_at := m3\<rparr>]\<rparr>)"
    using save_mem_push [of "ms\<lparr>nextId := nextId ms + 1\<rparr>" "born ms d m1 m2" m3]
      mem_inv_fresh [OF inv] by (simp add: born_fields)
  show ?thesis unfolding create_mem_unfold sv by simp
qed

lemma create_mem_nextId: "nextId (snd (create_mem ms d m1 m2 m3)) = nextId ms + 1"
  by (simp add: create_mem_unfold save_mem_def Let_def split: option.splits)

lemma mem_inv_create:
  assumes inv: "mem_inv ms"
  shows "mem_inv (snd (create_mem ms d m1 m2 m3))"
proof -
  have bound: "list_all (\<lambda>u. case u_id u of None \<Rightarrow> False | Some k \<Rightarrow> k < nextId ms + 1) (users ms)"
    using inv by (auto simp: mem_inv_def list_all_iff split: option.splits)
  from create_mem_users [OF inv, of d m1 m2 m3] show ?thesis
  proof
    assume "users (snd (create_mem ms d m1 m2 m3)) = users ms \<and>
           \<not> cr_success (fst (create_mem ms d m1 m2 m3))"
    then show ?thesis unfolding mem_inv_def create_mem_nextId using inv bound
      by (simp add: mem_inv_def)
  next
    assume "users (snd (create_mem ms d m1 m2 m3)) =
             users ms @ [(born ms d m1 m2)\<lparr>u_updated_at := m3\<rparr>] \<and>
           cr_success (fst (create_mem ms d m1 m2 m3)) \<and>
           cr_user (fst (create_mem ms d m1 m2 m3)) = Some ((born ms d m1 m2)\<lparr>u_updated_at := m3\<rparr>)"
    moreover have "Some (nextId ms) \<notin> set (map u_id (users ms))"
      using mem_inv_fresh [OF inv] by force
    ultimately show ?thesis unfolding mem_inv_def create_mem_nextId using inv bound
      by (simp add: mem_inv_def born_fields)
  qed
qed

lemma delete_mem_ids: "map u_id (users (snd (delete_mem ms x now))) = map u_id (users ms)"
proof (cases "findIndex (\<lambda>u. id_is x u \<and> u_is_active u) (users ms)")
  case None
  then show ?thesis by (simp add: delete_mem_def)
next
  case (Some k)
  from findIndex_Some [OF Some] have "k < length (users ms)" by simp
  then show ?thesis using Some by (simp add: delete_mem_def map_update list_update_same_conv)
qed

lemma delete_mem_nextId: "nextId (snd (delete_mem ms x now)) = nextId ms"
  by (simp add: delete_mem_def split: option.splits)

lemma delete_mem_set_ids:
  "u \<in> set (users (snd (delete_mem ms x now))) \<Longrightarrow> \<exists>v\<in>set (users ms). u_id v = u_id u"
proof -
  assume "u \<in> set (users (snd (delete_mem ms x now)))"
  then have "u_id u \<in> set (map u_id (users (snd (delete_mem ms x now))))" by simp
  then have "u_id u \<in> set (map u_id (users ms))" by (simp only: delete_mem_ids)
  then show ?thesis by auto
qed

lemma mem_inv_delete:
  assumes inv: "mem_inv ms"
  shows "mem_inv (snd (delete_mem ms x now))"
proof -
  have d: "distinct (map u_id (users (snd (delete_mem ms x now))))"
    using inv by (simp add: delete_mem_ids mem_inv_def)
  have b: "list_all (\<lambda>u. case u_id u of None \<Rightarrow> False | Some k \<Rightarrow> k < nextId ms)
             (users (snd (delete_mem ms x now)))"
    unfolding list_all_iff
  proof
    fix u assume "u \<in> set (users (snd (delete_mem ms x now)))"
    from delete_mem_set_ids [OF this] obtain v where "v \<in> set (users ms)" "u_id v = u_id u"
      by blast
    then show "case u_id u of None \<Rightarrow> False | Some k \<Rightarrow> k < nextId ms"
      using inv by (auto simp: mem_inv_def list_all_iff)
  qed
  show ?thesis unfolding mem_inv_def delete_mem_nextId using d b by simp
qed

lemma save_mem_ids:
  shows "u_id (fst (save_mem ms u now)) = u_id u"
    and "map u_id (users (snd (save_mem ms u now))) =
           (if u_id u \<in> set (map u_id (users ms)) then map u_id (users ms)
            else map u_id (users ms) @ [u_id u])"
    and "nextId (snd (save_mem ms u now)) = nextId ms"
proof -
  show "u_id (fst (save_mem ms u now)) = u_id u"
    by (simp add: save_mem_def Let_def split: option.splits)
  show "nextId (snd (save_mem ms u now)) = nextId ms"
    by (simp add: save_mem_def Let_def split: option.splits)
  show "map u_id (users (snd (save_mem ms u now))) =
           (if u_id u \<in> set (map u_id (users ms)) then map u_id (users ms)
            else map u_id (users ms) @ [u_id u])"
  proof (cases "findIndex (\<lambda>v. u_id v = u_id u) (users ms)")
    case None
    then have "u_id u \<notin> set (map u_id (users ms))" by (auto simp: findIndex_None)
    then show ?thesis using None by (simp add: save_mem_def Let_def)
  next
    case (Some k)
    from findIndex_Some [OF Some]
    have k: "k < length (users ms)" and e: "u_id (users ms ! k) = u_id u" by simp_all
    have "u_id (users ms ! k) \<in> set (map u_id (users ms))" using k by simp
    then have "u_id u \<in> set (map u_id (users ms))" by (simp only: e)
    then show ?thesis using Some k e
      by (simp add: save_mem_def Let_def map_update list_update_same_conv)
  qed
qed

lemma update_mem_unfold:
  "update_mem ms i body now =
     (case findIndex (\<lambda>u. id_is (parseInt_str i) u \<and> u_is_active u) (users ms) of
        None \<Rightarrow> (NotFound404, ms)
      | Some k \<Rightarrow>
          if truthy_text (b_email body) \<and> str_of (b_email body) \<noteq> u_email (users ms ! k) \<and>
             emailExists_mem ms (str_of (b_email body))
          then (Conflict400 EmailTaken, ms)
          else if \<not> valid (validate_mem (apply_body (users ms ! k) body))
          then (Invalid400 (errors (validate_mem (apply_body (users ms ! k) body))),
                ms\<lparr>users := (users ms)[k := apply_body (users ms ! k) body]\<rparr>)
          else (case save_mem
                  (ms\<lparr>users := (users ms)[k := (apply_body (users ms ! k) body)\<lparr>u_updated_at := now\<rparr>]\<rparr>)
                  (apply_body (users ms ! k) body) now of
                  (user4, ms') \<Rightarrow> (Ok200 (toPublicJSON user4), ms')))"
  by (simp only: update_mem_def apply_body_def Let_def)

lemma update_mem_ids:
  shows "map u_id (users (snd (update_mem ms i body now))) = map u_id (users ms)"
    and "nextId (snd (update_mem ms i body now)) = nextId ms"
proof -
  let ?found = "findIndex (\<lambda>u. id_is (parseInt_str i) u \<and> u_is_active u) (users ms)"
  have "map u_id (users (snd (update_mem ms i body now))) = map u_id (users ms) \<and>
        nextId (snd (update_mem ms i body now)) = nextId ms"
  proof (cases ?found)
    case None
    then show ?thesis by (simp add: update_mem_unfold)
  next
    case (Some k)
    from findIndex_Some [OF Some] have k: "k < length (users ms)" by simp
    let ?u = "apply_body (users ms ! k) body"
    let ?ms = "ms\<lparr>users := (users ms)[k := ?u\<lparr>u_updated_at := now\<rparr>]\<rparr>"
    have same: "map u_id ((users ms)[k := v]) = map u_id (users ms)"
      if "u_id v = u_id (users ms ! k)" for v
      using that k by (simp add: map_update list_update_same_conv)
    have written: "map u_id (users ?ms) = map u_id (users ms)" by (simp add: same)
    have "u_id (users ms ! k) \<in> set (map u_id (users ms))" using k by simp
    then have "u_id ?u \<in> set (map u_id (users ?ms))" by (simp only: written apply_body_frame)
    then have saved: "map u_id (users (snd (save_mem ?ms ?u now))) = map u_id (users ms)"
      by (simp only: save_mem_ids(2) written if_True)
    have counter: "nextId (snd (save_mem ?ms ?u now)) = nextId ms"
      by (simp add: save_mem_ids(3))
    show ?thesis
      unfolding update_mem_unfold Some option.case
      using saved counter by (simp add: same split_beta)
  qed
  then show "map u_id (users (snd (update_mem ms i body now))) = map u_id (users ms)"
    and "nextId (snd (update_mem ms i body now)) = nextId ms"
    by simp_all
qed

lemma mem_inv_same_ids:
  assumes inv: "mem_inv ms" and ids: "map u_id (users ms') = map u_id (users ms)"
    and counter: "nextId ms' = nextId ms"
  shows "mem_inv ms'"
proof -
  let ?Q = "\<lambda>j. case j of None \<Rightarrow> False | Some k \<Rightarrow> k < nextId ms"
  have "list_all ?Q (map u_id (users ms))"
    using inv by (simp add: mem_inv_def list_all_iff)
  then have "list_all ?Q (map u_id (users ms'))" by (simp only: ids)
  then have "list_all (\<lambda>u. case u_id u of None \<Rightarrow> False | Some k \<Rightarrow> k < nextId ms) (users ms')"
    by (simp add: list_all_iff)
  moreover have "distinct (map u_id (users ms'))" using inv by (simp add: ids mem_inv_def)
  ultimately show ?thesis unfolding mem_inv_def counter by simp
qed

lemma mem_inv_update:
  assumes "mem_inv ms"
  shows "mem_inv (snd (update_mem ms i body now))"
  using assms update_mem_ids [of ms i body now] by (rule mem_inv_same_ids)

lemma reachable_mem_inv: "reachable_mem ms \<Longrightarrow> mem_inv ms"
proof (induction rule: reachable_mem.induct)
  case reach_mem_empty
  show ?case by (simp add: mem_inv_def empty_mem_def)
next
  case (reach_mem_create ms d now1 now2 now3)
  then show ?case by (simp add: mem_inv_create)
next
  case (reach_mem_delete ms x now)
  then show ?case by (simp add: mem_inv_delete)
next
  case (reach_mem_update ms i body now)
  then show ?case by (simp add: mem_inv_update)
qed

lemma save_keeps_id:
  assumes "u_id u = Some k" and "k \<noteq> 0" and "save st u now = Some (u', st')"
  shows "u_id u' = Some k \<and> map row_id (db_rows st') = map row_id (db_rows st)"
proof -
  from assms obtain st0 where
    s: "sql_update st (u_name u) (u_email u) (u_password u) (u_age u)
          (if u_is_active u then 1 else 0) now k = Some st0"
    and r: "u' = u\<lparr>u_updated_at := now\<rparr>" "st' = st0"
    by (auto simp: save_def Let_def split: option.splits)
  have "map row_id (db_rows st0) = map row_id (db_rows st)"
    using s by (auto simp: sql_update_def o_def split: if_splits)
  then show ?thesis using r assms(1) by simp
qed

lemma delete_keeps_ids:
  assumes "store_inv st" and "delete st x n1 n2 n3 = Some (b, st')"
  shows "map row_id (db_rows st') = map row_id (db_rows st)"
proof (cases "findById st x n1 n2")
  case None
  then show ?thesis using assms(2) by (simp add: delete_absent)
next
  case (Some u)
  from delete_found [OF assms(1) Some, of n3] assms(2)
  have "st' = st\<lparr>db_rows := map (deactivate x n3) (db_rows st)\<rparr>" by simp
  then show ?thesis by (simp add: o_def)
qed

lemma create_ids:
  assumes "create st d n1 n2 n3 = Some (res, st')"
  shows "if cr_success res
         then cr_user res = Some ((candidate d n1 n2)\<lparr>u_updated_at := n3, u_id := Some (next_rowid st)\<rparr>) \<and>
              map row_id (db_rows st') = map row_id (db_rows st) @ [next_rowid st] \<and>
              (\<forall>r\<in>set (db_rows st). row_id r < next_rowid st)
         else st' = st"
proof -
  let ?c = "candidate d n1 n2"
  consider "\<not> valid (validate ?c)" | "valid (validate ?c)" "emailExists st (u_email ?c)"
    | "valid (validate ?c)" "\<not> emailExists st (u_email ?c)" by blast
  then show ?thesis
  proof cases
    case 1
    then show ?thesis using assms create_invalid [of d n1 n2 st n3] by (auto simp: candidate_def)
  next
    case 2
    then show ?thesis using assms create_conflict [of d n1 n2 st n3] by (auto simp: candidate_def)
  next
    case 3
    have "res = \<lparr>cr_success = True,
                cr_user = Some (?c\<lparr>u_updated_at := n3, u_id := Some (next_rowid st)\<rparr>),
                cr_errors = None\<rparr>"
      and "st' = st\<lparr>db_rows := db_rows st @ [new_row st ?c n3], db_seq := next_rowid st\<rparr>"
      using 3 assms create_insert [of d n1 n2 st n3] by (simp_all add: candidate_def)
    then show ?thesis using next_rowid_fresh [of _ st] by (simp add: new_row_def)
  qed
qed

lemma create_mem_ids:
  assumes "mem_inv ms"
  shows "map u_id (users (snd (create_mem ms d m1 m2 m3))) = map u_id (users ms) \<or>
         map u_id (users (snd (create_mem ms d m1 m2 m3))) = map u_id (users ms) @ [Some (nextId ms)]"
  using create_mem_users [OF assms, of d m1 m2 m3] by (auto simp: born_fields)

section \<open>The claims\<close>

text \<open>
  C1, as amended: on a database that satisfies \<^const>\<open>store_inv\<close>, as every database the
  operations reach does, when \<open>update(id, body)\<close> finds the record and the body's email
  is a non-empty string that differs from the stored one by more than the case of the
  ASCII letters, the response is the conflict error if and only if the new email equals,
  up to the case of the ASCII letters (the folding of SQLite's \<open>LOWER\<close>), the email of a
  different row, active or soft-deleted; and on conflict the database is unchanged.
\<close>

theorem update_conflict_iff:
  assumes "store_inv st" and "findById st (parseInt_str i) n1 n2 = Some user"
    and "b_email body = TStr e" and "e \<noteq> []" and "LOWER e \<noteq> LOWER (u_email user)"
  shows "(fst (update st i body n1 n2 n3) = Conflict400 EmailTaken \<longleftrightarrow>
            (\<exists>r\<in>set (db_rows st). Some (row_id r) \<noteq> u_id user \<and> LOWER (row_email r) = LOWER e)) \<and>
         (fst (update st i body n1 n2 n3) = Conflict400 EmailTaken \<longrightarrow>
            snd (update st i body n1 n2 n3) = st)"
proof -
  have ne: "e \<noteq> u_email user" using assms(5) by auto
  have c: "email_conflict st user body \<longleftrightarrow> emailExists st e"
    using assms(3,4) ne by (simp add: email_conflict_def)
  have other: "emailExists st e \<longleftrightarrow>
      (\<exists>r\<in>set (db_rows st). Some (row_id r) \<noteq> u_id user \<and> LOWER (row_email r) = LOWER e)"
  proof
    assume "emailExists st e"
    then obtain r where r: "r \<in> set (db_rows st)" and l: "LOWER (row_email r) = LOWER e"
      by (auto simp: emailExists_iff)
    have "Some (row_id r) \<noteq> u_id user"
    proof
      assume "Some (row_id r) = u_id user"
      from found_user_row(1) [OF assms(1,2) r this] l assms(5) show False by simp
    qed
    with r l show "\<exists>r\<in>set (db_rows st). Some (row_id r) \<noteq> u_id user \<and> LOWER (row_email r) = LOWER e"
      by blast
  next
    assume "\<exists>r\<in>set (db_rows st). Some (row_id r) \<noteq> u_id user \<and> LOWER (row_email r) = LOWER e"
    then show "emailExists st e" by (auto simp: emailExists_iff)
  qed
  show ?thesis
    unfolding update_result [OF assms(1,2)] other [symmetric] c by simp
qed

theorem update_conflict_iff_witness:
  "store_inv db_two \<and>
   fst (update db_two ''1'' \<lparr>b_name = TUndefined, b_email = TStr ''BIA@test.com'', b_age = JUndefined\<rparr>
          t0 t0 t1) = Conflict400 EmailTaken \<and>
   snd (update db_two ''1'' \<lparr>b_name = TUndefined, b_email = TStr ''BIA@test.com'', b_age = JUndefined\<rparr>
          t0 t0 t1) = db_two \<and>
   fst (update db_two ''1'' \<lparr>b_name = TUndefined, b_email = TStr ''eva@test.com'', b_age = JUndefined\<rparr>
          t0 t0 t1) \<noteq> Conflict400 EmailTaken"
proof -
  let ?u = "\<lparr>u_id = Some 1, u_name = ''Ana Silva'', u_email = ''ana@test.com'',
          u_password = None, u_age = Some (Fin 30), u_is_active = True,
          u_created_at = t0, u_updated_at = t0\<rparr>"
  have h1: "b_email \<lparr>b_name = TUndefined, b_email = TStr ''BIA@test.com'', b_age = JUndefined\<rparr>
            = TStr ''BIA@test.com''" "''BIA@test.com'' \<noteq> []"
      "LOWER ''BIA@test.com'' \<noteq> LOWER (u_email ?u)"
    by (simp_all add: LOWER_def lower_ascii_def)
  have h2: "b_email \<lparr>b_name = TUndefined, b_email = TStr ''eva@test.com'', b_age = JUndefined\<rparr>
            = TStr ''eva@test.com''" "''eva@test.com'' \<noteq> []"
      "LOWER ''eva@test.com'' \<noteq> LOWER (u_email ?u)"
    by (simp_all add: LOWER_def lower_ascii_def)
  have c1: "\<exists>r\<in>set (db_rows db_two). Some (row_id r) \<noteq> u_id ?u \<and>
              LOWER (row_email r) = LOWER ''BIA@test.com''"
    by (simp add: eval_defs)
  have c2: "\<not> (\<exists>r\<in>set (db_rows db_two). Some (row_id r) \<noteq> u_id ?u \<and>
              LOWER (row_email r) = LOWER ''eva@test.com'')"
    by (simp add: eval_defs)
  show ?thesis
    using update_conflict_iff [OF inv_db_two find_ana h1, of t1]
      update_conflict_iff [OF inv_db_two find_ana h2, of t1] c1 c2 inv_db_two
    by blast
qed

text \<open>
  C1 as stated fails in two ways. After the second record is deleted, updating the first
  one to the second's email is refused as a conflict, though no different active record
  has that email. And where the second record, active, has an email beginning with the
  capital letter U+00C9, updating the first one to the same email written with the small
  letter U+00E9 is no conflict, though the two emails are equal up to letter case.
\<close>

theorem update_conflict_counterexample:
  "fst (update db_deleted ''1''
          \<lparr>b_name = TUndefined, b_email = TStr ''Bia@Test.com'', b_age = JUndefined\<rparr> t1 t1 t1)
     = Conflict400 EmailTaken \<and>
   \<not> (\<exists>r\<in>set (db_rows db_deleted).
         row_id r \<noteq> 1 \<and> row_is_active r = 1 \<and> LOWER (row_email r) = LOWER ''Bia@Test.com'') \<and>
   update db_eva ''1''
      \<lparr>b_name = TUndefined, b_email = TStr (CHR 0xE9 # ''va@test.com''), b_age = JUndefined\<rparr>
      t1 t1 t1 =
     (Ok200 \<lparr>pub_id = Some 1, pub_name = ''Ana Silva'', pub_email = CHR 0xE9 # ''va@test.com'',
              pub_age = Some (Fin 30), pub_is_active = True, pub_created_at = t0,
              pub_updated_at = t1\<rparr>,
      db_eva\<lparr>db_rows := [ana_row\<lparr>row_email := CHR 0xE9 # ''va@test.com'', row_updated_at := t1\<rparr>,
                          eva_row]\<rparr>) \<and>
   db_rows db_eva = [ana_row, eva_row] \<and>
   row_id eva_row = 2 \<and> row_is_active eva_row = 1 \<and>
   toLowerCase (row_email eva_row) = toLowerCase (CHR 0xE9 # ''va@test.com'')"
proof -
  have "toLowerCase (row_email eva_row) = toLowerCase (CHR 0xE9 # ''va@test.com'')"
    using same_letters by (simp add: eva_row_def)
  then show ?thesis by (simp add: eval_defs update_eval_defs)
qed

text \<open>
  C2, as amended: \<open>emailExists(e)\<close> is true if and only if some row, active or not, has
  an email equal to \<open>e\<close> up to the case of the ASCII letters (the folding of SQLite's
  \<open>LOWER\<close>), whereas \<open>findByEmail(e)\<close> returns a record if and only if an active row
  has one, and the record it returns is active with such an email; \<open>findById\<close> likewise
  finds active rows only, and \<open>findAll\<close> returns the active rows, in the table's order.
  So after the record with email \<open>e\<close> is deleted, \<open>emailExists(e)\<close> is still true and
  \<open>findByEmail(e)\<close> finds nothing.
\<close>

theorem lookups_and_soft_delete:
  "(emailExists st e \<longleftrightarrow> (\<exists>r\<in>set (db_rows st). LOWER (row_email r) = LOWER e)) \<and>
   ((\<exists>u. findByEmail st e n1 n2 = Some u) \<longleftrightarrow>
      (\<exists>r\<in>set (db_rows st). row_is_active r = 1 \<and> LOWER (row_email r) = LOWER e)) \<and>
   (\<forall>u. findByEmail st e n1 n2 = Some u \<longrightarrow> u_is_active u \<and> LOWER (u_email u) = LOWER e) \<and>
   ((\<exists>u. findById st x n1 n2 = Some u) \<longleftrightarrow>
      (\<exists>r\<in>set (db_rows st). row_is_active r = 1 \<and> num_of_int (row_id r) = x)) \<and>
   (\<forall>u. findById st x n1 n2 = Some u \<longrightarrow> u_is_active u \<and> id_is x u) \<and>
   map seen (findAll st clk) =
     map (\<lambda>r. (Some (row_id r), row_name r, row_email r, row_age r, True))
         (filter (\<lambda>r. row_is_active r = 1) (db_rows st)) \<and>
   (store_inv st \<longrightarrow>
      (\<forall>u. findById st x n1 n2 = Some u \<longrightarrow>
         (\<exists>st'. delete st x n1 n2 n3 = Some (True, st') \<and>
                emailExists st' (u_email u) \<and> findByEmail st' (u_email u) m1 m2 = None)))"
proof (intro conjI)
  show "emailExists st e \<longleftrightarrow> (\<exists>r\<in>set (db_rows st). LOWER (row_email r) = LOWER e)"
    by (rule emailExists_iff)
  show "(\<exists>u. findByEmail st e n1 n2 = Some u) \<longleftrightarrow>
      (\<exists>r\<in>set (db_rows st). row_is_active r = 1 \<and> LOWER (row_email r) = LOWER e)"
    using findByEmail_None [of st e n1 n2] by (cases "findByEmail st e n1 n2") auto
  show "\<forall>u. findByEmail st e n1 n2 = Some u \<longrightarrow> u_is_active u \<and> LOWER (u_email u) = LOWER e"
  proof (intro allI impI)
    fix u assume "findByEmail st e n1 n2 = Some u"
    from findByEmail_Some [OF this] show "u_is_active u \<and> LOWER (u_email u) = LOWER e"
      by (auto simp: read_back_fields)
  qed
  show "(\<exists>u. findById st x n1 n2 = Some u) \<longleftrightarrow>
      (\<exists>r\<in>set (db_rows st). row_is_active r = 1 \<and> num_of_int (row_id r) = x)"
    using findById_None [of st x n1 n2] by (cases "findById st x n1 n2") auto
  show "\<forall>u. findById st x n1 n2 = Some u \<longrightarrow> u_is_active u \<and> id_is x u"
  proof (intro allI impI)
    fix u assume "findById st x n1 n2 = Some u"
    from findById_Some [OF this] show "u_is_active u \<and> id_is x u"
      by (auto simp: read_back_fields id_is_def)
  qed
  show "map seen (findAll st clk) =
     map (\<lambda>r. (Some (row_id r), row_name r, row_email r, row_age r, True))
         (filter (\<lambda>r. row_is_active r = 1) (db_rows st))"
    by (rule findAll_seen)
  show "store_inv st \<longrightarrow>
      (\<forall>u. findById st x n1 n2 = Some u \<longrightarrow>
         (\<exists>st'. delete st x n1 n2 n3 = Some (True, st') \<and>
                emailExists st' (u_email u) \<and> findByEmail st' (u_email u) m1 m2 = None))"
  proof (intro impI allI)
    fix u assume inv: "store_inv st" and f: "findById st x n1 n2 = Some u"
    show "\<exists>st'. delete st x n1 n2 n3 = Some (True, st') \<and>
                emailExists st' (u_email u) \<and> findByEmail st' (u_email u) m1 m2 = None"
      using delete_found [OF inv f, of n3] delete_hides_email [OF inv f, of n3]
      by (intro exI [of _ "st\<lparr>db_rows := map (deactivate x n3) (db_rows st)\<rparr>"]) simp
  qed
qed

theorem lookups_and_soft_delete_witness:
  "emailExists db_two ''BIA@TEST.COM'' \<and>
   (\<exists>u. findByEmail db_two ''BIA@TEST.COM'' t0 t0 = Some u) \<and>
   (\<exists>u. findById db_two (Fin 2) t0 t0 = Some u) \<and>
   store_inv db_two \<and>
   delete db_two (Fin 2) t1 t1 t1 = Some (True, db_deleted) \<and>
   emailExists db_deleted ''Bia@Test.com'' \<and>
   findByEmail db_deleted ''Bia@Test.com'' t0 t0 = None"
proof -
  have r: "bia_row \<in> set (db_rows db_two)" "row_is_active bia_row = 1"
    "LOWER (row_email bia_row) = LOWER ''BIA@TEST.COM''" "num_of_int (row_id bia_row) = Fin 2"
    by (simp_all add: eval_defs)
  have f: "findById db_two (Fin 2) t1 t1 =
      Some \<lparr>u_id = Some 2, u_name = ''Bia Souza'', u_email = ''Bia@Test.com'',
              u_password = Some ''s3cret'', u_age = None, u_is_active = True,
              u_created_at = t0, u_updated_at = t0\<rparr>"
    by (simp add: eval_defs)
  from lookups_and_soft_delete [of db_two "''BIA@TEST.COM''" t0 t0 "Fin 2" "\<lambda>_. (t0, t0)" t1 t0 t0]
  have 1: "emailExists db_two ''BIA@TEST.COM''"
    and 2: "\<exists>u. findByEmail db_two ''BIA@TEST.COM'' t0 t0 = Some u"
    and 3: "\<exists>u. findById db_two (Fin 2) t0 t0 = Some u"
    using r by blast+
  from lookups_and_soft_delete [of db_two "''x''" t1 t1 "Fin 2" "\<lambda>_. (t0, t0)" t1 t0 t0] inv_db_two f
  obtain st' where "delete db_two (Fin 2) t1 t1 t1 = Some (True, st')"
    "emailExists st' ''Bia@Test.com''" "findByEmail st' ''Bia@Test.com'' t0 t0 = None"
    by auto
  then show ?thesis using 1 2 3 inv_db_two by (simp add: delete_bia)
qed

text \<open>
  C2 as stated fails for letters outside ASCII: with an active record whose email begins
  with the capital letter U+00C9, \<open>emailExists\<close> is false of the same email written with
  the small letter U+00E9, and \<open>findByEmail\<close> finds nothing, though the two emails are
  equal up to letter case.
\<close>

theorem lookups_capital_counterexample:
  "db_rows db_eva = [ana_row, eva_row] \<and> row_is_active eva_row = 1 \<and>
   toLowerCase (row_email eva_row) = toLowerCase (CHR 0xE9 # ''va@test.com'') \<and>
   emailExists db_eva (CHR 0xE9 # ''va@test.com'') = False \<and>
   findByEmail db_eva (CHR 0xE9 # ''va@test.com'') t0 t0 = None"
proof -
  have "toLowerCase (row_email eva_row) = toLowerCase (CHR 0xE9 # ''va@test.com'')"
    using same_letters by (simp add: eva_row_def)
  then show ?thesis
    by (simp add: eval_defs findByEmail_def sql_select_by_email_def)
qed

text \<open>
  C3: for every input and every database, \<open>create\<close> returns, and in one of three ways.
  Either validation fails: the result is \<open>success = false\<close> with the messages of
  \<open>validate()\<close>, and the database is unchanged. Or validation passes and some row, active
  or not, has the input's email up to letter case: the result is \<open>success = false\<close> with
  the single conflict message, and the database is unchanged. Or exactly one row is
  appended, whose rowid the store generates (larger than every rowid of the table); the
  result is \<open>success = true\<close> with the record carrying that identifier. The messages of
  a failed validation are complete: each rule's message is in the list exactly when the
  rule fails, whatever the other rules say.
\<close>

theorem create_outcomes:
  "(\<not> valid (validate (candidate d n1 n2)) \<and>
    create st d n1 n2 n3 =
      Some (\<lparr>cr_success = False, cr_user = None,
             cr_errors = Some (errors (validate (candidate d n1 n2)))\<rparr>, st)
    \<or>
    valid (validate (candidate d n1 n2)) \<and> emailExists st (in_email d) \<and>
    create st d n1 n2 n3 =
      Some (\<lparr>cr_success = False, cr_user = None, cr_errors = Some [EmailTaken]\<rparr>, st)
    \<or>
    valid (validate (candidate d n1 n2)) \<and> \<not> emailExists st (in_email d) \<and>
    create st d n1 n2 n3 =
      Some (\<lparr>cr_success = True,
             cr_user = Some ((candidate d n1 n2)\<lparr>u_updated_at := n3, u_id := Some (next_rowid st)\<rparr>),
             cr_errors = None\<rparr>,
            st\<lparr>db_rows := db_rows st @ [new_row st (candidate d n1 n2) n3],
               db_seq := next_rowid st\<rparr>) \<and>
    row_id (new_row st (candidate d n1 n2) n3) = next_rowid st \<and>
    (\<forall>r\<in>set (db_rows st). row_id r < next_rowid st))
   \<and>
   (emailExists st (in_email d) \<longleftrightarrow>
      (\<exists>r\<in>set (db_rows st). LOWER (row_email r) = LOWER (in_email d))) \<and>
   (valid (validate (candidate d n1 n2)) \<longleftrightarrow> errors (validate (candidate d n1 n2)) = []) \<and>
   (NameRequired \<in> set (errors (validate (candidate d n1 n2))) \<longleftrightarrow> trim (in_name d) = []) \<and>
   (NameTooShort \<in> set (errors (validate (candidate d n1 n2))) \<longleftrightarrow>
      trim (in_name d) \<noteq> [] \<and> length (trim (in_name d)) < 2) \<and>
   (EmailRequired \<in> set (errors (validate (candidate d n1 n2))) \<longleftrightarrow> trim (in_email d) = []) \<and>
   (EmailInvalid \<in> set (errors (validate (candidate d n1 n2))) \<longleftrightarrow>
      trim (in_email d) \<noteq> [] \<and> \<not> emailRegex_test (in_email d)) \<and>
   (AgeRange \<in> set (errors (validate (candidate d n1 n2))) \<longleftrightarrow>
      (\<exists>a. in_age d = Some a \<and> (js_lt a (Fin 0) \<or> js_gt a (Fin 150)))) \<and>
   EmailTaken \<notin> set (errors (validate (candidate d n1 n2)))"
proof -
  have f: "u_name (candidate d n1 n2) = in_name d" "u_email (candidate d n1 n2) = in_email d"
    "u_age (candidate d n1 n2) = in_age d"
    by (simp_all add: candidate_def new_User_def as_UserData_def)
  have fresh: "\<forall>r\<in>set (db_rows st). row_id r < next_rowid st"
    using next_rowid_fresh by blast
  have id: "row_id (new_row st (candidate d n1 n2) n3) = next_rowid st"
    by (simp add: new_row_def)
  have outcome:
   "\<not> valid (validate (candidate d n1 n2)) \<and>
    create st d n1 n2 n3 =
      Some (\<lparr>cr_success = False, cr_user = None,
             cr_errors = Some (errors (validate (candidate d n1 n2)))\<rparr>, st)
    \<or>
    valid (validate (candidate d n1 n2)) \<and> emailExists st (in_email d) \<and>
    create st d n1 n2 n3 =
      Some (\<lparr>cr_success = False, cr_user = None, cr_errors = Some [EmailTaken]\<rparr>, st)
    \<or>
    valid (validate (candidate d n1 n2)) \<and> \<not> emailExists st (in_email d) \<and>
    create st d n1 n2 n3 =
      Some (\<lparr>cr_success = True,
             cr_user = Some ((candidate d n1 n2)\<lparr>u_updated_at := n3, u_id := Some (next_rowid st)\<rparr>),
             cr_errors = None\<rparr>,
            st\<lparr>db_rows := db_rows st @ [new_row st (candidate d n1 n2) n3],
               db_seq := next_rowid st\<rparr>) \<and>
    row_id (new_row st (candidate d n1 n2) n3) = next_rowid st \<and>
    (\<forall>r\<in>set (db_rows st). row_id r < next_rowid st)"
    using create_invalid [of d n1 n2 st n3] create_conflict [of d n1 n2 st n3]
      create_insert [of d n1 n2 st n3] fresh id f(2)
    unfolding candidate_def by metis
  show ?thesis
    using outcome validate_members [of "candidate d n1 n2"] validate_valid [of "candidate d n1 n2"]
      emailExists_iff [of st "in_email d"]
    unfolding f by blast
qed

theorem create_outcomes_witness:
  "create db_ana bia_input t0 t0 t0 =
      Some (\<lparr>cr_success = True,
             cr_user = Some ((candidate bia_input t0 t0)\<lparr>u_updated_at := t0, u_id := Some 2\<rparr>),
             cr_errors = None\<rparr>,
            db_two) \<and>
   create db_two (bia_input\<lparr>in_email := ''BIA@test.com''\<rparr>) t0 t0 t0 =
      Some (\<lparr>cr_success = False, cr_user = None, cr_errors = Some [EmailTaken]\<rparr>, db_two) \<and>
   create db_two \<lparr>in_name = ''J'', in_email = ''jo@test'', in_password = None,
                  in_age = Some (Fin 200)\<rparr> t0 t0 t0 =
      Some (\<lparr>cr_success = False, cr_user = None,
             cr_errors = Some [NameTooShort, EmailInvalid, AgeRange]\<rparr>, db_two)"
proof -
  have a: "valid (validate (candidate bia_input t0 t0))" "\<not> emailExists db_ana (in_email bia_input)"
    "next_rowid db_ana = 2" "new_row db_ana (candidate bia_input t0 t0) t0 = bia_row"
    by (simp_all add: candidate_def new_row_def eval_defs)
  have upd: "db_ana\<lparr>db_rows := db_rows db_ana @ [bia_row], db_seq := 2\<rparr> = db_two"
    by (simp add: db_ana_def db_two_def)
  have b: "valid (validate (candidate (bia_input\<lparr>in_email := ''BIA@test.com''\<rparr>) t0 t0))"
     "emailExists db_two (in_email (bia_input\<lparr>in_email := ''BIA@test.com''\<rparr>))"
    by (simp_all add: candidate_def eval_defs)
  have c: "\<not> valid (validate (candidate \<lparr>in_name = ''J'', in_email = ''jo@test'', in_password = None,
                  in_age = Some (Fin 200)\<rparr> t0 t0))"
     "errors (validate (candidate \<lparr>in_name = ''J'', in_email = ''jo@test'', in_password = None,
                  in_age = Some (Fin 200)\<rparr> t0 t0)) = [NameTooShort, EmailInvalid, AgeRange]"
    by (simp_all add: candidate_def eval_defs)
  have 1: "create db_ana bia_input t0 t0 t0 =
      Some (\<lparr>cr_success = True,
             cr_user = Some ((candidate bia_input t0 t0)\<lparr>u_updated_at := t0, u_id := Some 2\<rparr>),
             cr_errors = None\<rparr>,
            db_two)"
    using create_outcomes [of bia_input t0 t0 db_ana t0] a(1,2) unfolding a(3,4) upd by blast
  have 2: "create db_two (bia_input\<lparr>in_email := ''BIA@test.com''\<rparr>) t0 t0 t0 =
      Some (\<lparr>cr_success = False, cr_user = None, cr_errors = Some [EmailTaken]\<rparr>, db_two)"
    using create_outcomes [of "bia_input\<lparr>in_email := ''BIA@test.com''\<rparr>" t0 t0 db_two t0] b
    by blast
  have 3: "create db_two \<lparr>in_name = ''J'', in_email = ''jo@test'', in_password = None,
                  in_age = Some (Fin 200)\<rparr> t0 t0 t0 =
      Some (\<lparr>cr_success = False, cr_user = None,
             cr_errors = Some [NameTooShort, EmailInvalid, AgeRange]\<rparr>, db_two)"
    using create_outcomes [of "\<lparr>in_name = ''J'', in_email = ''jo@test'', in_password = None,
                  in_age = Some (Fin 200)\<rparr>" t0 t0 db_two t0] c(1)
    unfolding c(2) by blast
  show ?thesis using 1 2 3 by simp
qed

text \<open>
  C4: on a database that satisfies \<^const>\<open>store_inv\<close>, as every database the operations
  reach does, \<open>delete(id)\<close> of an active record returns
  true and changes the table in the row of that id only, setting its active flag to 0
  and its \<open>updated_at\<close> to the clock's reading; after it the record is not found by its
  id, and a second \<open>delete(id)\<close> returns false and leaves the whole database as it is,
  \<open>updated_at\<close> included. \<open>delete(id)\<close> when no active record has the id returns false
  and leaves the database unchanged.
\<close>

theorem delete_soft:
  assumes "store_inv st"
  shows "(findById st x n1 n2 \<noteq> None \<longrightarrow>
            delete st x n1 n2 n3 =
              Some (True, st\<lparr>db_rows := map (deactivate x n3) (db_rows st)\<rparr>) \<and>
            findById (st\<lparr>db_rows := map (deactivate x n3) (db_rows st)\<rparr>) x m1 m2 = None \<and>
            delete (st\<lparr>db_rows := map (deactivate x n3) (db_rows st)\<rparr>) x m1 m2 m3 =
              Some (False, st\<lparr>db_rows := map (deactivate x n3) (db_rows st)\<rparr>)) \<and>
         (findById st x n1 n2 = None \<longrightarrow> delete st x n1 n2 n3 = Some (False, st))"
proof (intro conjI impI)
  assume "findById st x n1 n2 \<noteq> None"
  then obtain u where u: "findById st x n1 n2 = Some u" by blast
  show "delete st x n1 n2 n3 = Some (True, st\<lparr>db_rows := map (deactivate x n3) (db_rows st)\<rparr>)"
    by (rule delete_found [OF assms u])
next
  show "findById (st\<lparr>db_rows := map (deactivate x n3) (db_rows st)\<rparr>) x m1 m2 = None"
    by (rule findById_deactivated)
next
  show "delete (st\<lparr>db_rows := map (deactivate x n3) (db_rows st)\<rparr>) x m1 m2 m3 =
          Some (False, st\<lparr>db_rows := map (deactivate x n3) (db_rows st)\<rparr>)"
    by (rule delete_absent [OF findById_deactivated])
next
  assume "findById st x n1 n2 = None"
  then show "delete st x n1 n2 n3 = Some (False, st)" by (rule delete_absent)
qed

theorem delete_soft_witness:
  "store_inv db_two \<and> findById db_two (Fin 2) t1 t1 \<noteq> None \<and>
   delete db_two (Fin 2) t1 t1 t1 = Some (True, db_deleted) \<and>
   findById db_deleted (Fin 2) t1 t1 = None \<and>
   delete db_deleted (Fin 2) t1 t1 t1 = Some (False, db_deleted) \<and>
   findById db_two (Fin 3) t1 t1 = None \<and>
   delete db_two (Fin 3) t1 t1 t1 = Some (False, db_two)"
proof -
  have f: "findById db_two (Fin 2) t1 t1 \<noteq> None" "findById db_two (Fin 3) t1 t1 = None"
    by (simp_all add: eval_defs)
  have m: "db_two\<lparr>db_rows := map (deactivate (Fin 2) t1) (db_rows db_two)\<rparr> = db_deleted"
    by (simp add: deactivate_def eval_defs)
  show ?thesis
    using delete_soft [OF inv_db_two, of "Fin 2" t1 t1 t1 t1 t1 t1]
      delete_soft [OF inv_db_two, of "Fin 3" t1 t1 t1 t1 t1 t1] f inv_db_two
    unfolding m by simp
qed

text \<open>
  C5, as amended: for a record whose age is a number other than NaN, \<open>validate()\<close>, of
  either variant, reports the age message if and only if the age is not a number in
  \<open>[0, 150]\<close>. The number need not be an integer: the check is a comparison with the two
  bounds.
\<close>

theorem age_rule_numbers:
  "u_age u = Some a \<Longrightarrow> a \<noteq> NaN \<Longrightarrow>
   (AgeRange \<in> set (errors (validate u)) \<longleftrightarrow> \<not> (\<exists>q. a = Fin q \<and> 0 \<le> q \<and> q \<le> 150)) \<and>
   (AgeRange \<in> set (errors (validate_mem u)) \<longleftrightarrow> \<not> (\<exists>q. a = Fin q \<and> 0 \<le> q \<and> q \<le> 150))"
  unfolding validate_mem_eq by (cases a) (auto simp: validate_members js_gt_def)

theorem age_rule_numbers_witness:
  "u_age (candidate (ana_input\<lparr>in_age := Some (Fin 200)\<rparr>) t0 t0) = Some (Fin 200) \<and>
   Fin 200 \<noteq> NaN \<and>
   AgeRange \<in> set (errors (validate (candidate (ana_input\<lparr>in_age := Some (Fin 200)\<rparr>) t0 t0)))"
proof -
  have a: "u_age (candidate (ana_input\<lparr>in_age := Some (Fin 200)\<rparr>) t0 t0) = Some (Fin 200)"
    by (simp add: candidate_def new_User_def as_UserData_def)
  have b: "Fin 200 \<noteq> NaN" by simp
  show ?thesis using a b age_rule_numbers [OF a b] by simp
qed

text \<open>
  C5 as stated fails at the age \<open>30.5\<close>: it is not an integer, and \<open>validate()\<close>
  does not report the age message.
\<close>

theorem age_fraction_counterexample:
  "\<not> (AgeRange \<in> set (errors (validate (candidate (ana_input\<lparr>in_age := Some (Fin (61 / 2))\<rparr>) t0 t0)))
      \<longleftrightarrow> \<not> (\<exists>n::int. Fin (61 / 2) = Fin (of_int n) \<and> 0 \<le> n \<and> n \<le> 150))"
proof -
  have e: "AgeRange \<notin> set (errors (validate (candidate (ana_input\<lparr>in_age := Some (Fin (61 / 2))\<rparr>) t0 t0)))"
    by (simp add: validate_members candidate_def new_User_def as_UserData_def js_gt_def)
  have n: "\<not> (\<exists>n::int. Fin (61 / 2) = Fin (of_int n) \<and> 0 \<le> n \<and> n \<le> 150)"
    using half_not_int by (simp only: jsnum.inject) blast
  show ?thesis using e n by blast
qed

text \<open>
  C6, as amended. In the SQLite-backed model the identifier of a record is absent until
  the record is first persisted; \<open>create\<close> assigns it from the store on that first
  persistence, larger than every identifier in the table; the identifiers of the rows
  are distinct in every database the operations reach; and \<open>delete\<close>, the controller's
  update and \<open>save()\<close> of a record that has an identifier change no row's identifier. In
  the in-memory variant the constructor assigns the identifier from the counter
  \<open>nextId\<close>, which every \<open>create\<close> advances, also one that rejects its input; the stored
  identifiers are distinct and below the counter in every array that \<open>create\<close>, \<open>delete\<close>
  and the controller's update reach; \<open>create\<close> leaves them as they are or adds the new
  one at the end; \<open>delete\<close> and the controller's update change neither an identifier
  nor the counter; and \<open>save()\<close> returns the record with the identifier it had, replaces
  a stored record of that identifier without changing any identifier of the array, and
  otherwise adds the record at the end, so that distinct identifiers stay distinct.
\<close>

theorem identifier_lifecycle:
  "u_id (candidate d n1 n2) = None \<and>
   (\<forall>res st'. create st d n1 n2 n3 = Some (res, st') \<longrightarrow>
      (if cr_success res
       then cr_user res =
              Some ((candidate d n1 n2)\<lparr>u_updated_at := n3, u_id := Some (next_rowid st)\<rparr>) \<and>
            map row_id (db_rows st') = map row_id (db_rows st) @ [next_rowid st] \<and>
            (\<forall>r\<in>set (db_rows st). row_id r < next_rowid st)
       else st' = st)) \<and>
   (reachable st \<longrightarrow> distinct (map row_id (db_rows st))) \<and>
   (store_inv st \<longrightarrow>
      (\<forall>b st'. delete st x n1 n2 n3 = Some (b, st') \<longrightarrow>
         map row_id (db_rows st') = map row_id (db_rows st)) \<and>
      map row_id (db_rows (snd (update st i body n1 n2 n3))) = map row_id (db_rows st)) \<and>
   (\<forall>k u' st'. u_id u = Some k \<and> k \<noteq> 0 \<and> save st u n3 = Some (u', st') \<longrightarrow>
      u_id u' = Some k \<and> map row_id (db_rows st') = map row_id (db_rows st)) \<and>
   u_id (fst (new_User_mem ms (as_UserData d) n1 n2)) = Some (nextId ms) \<and>
   nextId (snd (create_mem ms d n1 n2 n3)) = nextId ms + 1 \<and>
   (reachable_mem ms \<longrightarrow>
      distinct (map u_id (users ms)) \<and>
      (\<forall>v\<in>set (users ms). \<exists>k. u_id v = Some k \<and> k < nextId ms) \<and>
      (map u_id (users (snd (create_mem ms d n1 n2 n3))) = map u_id (users ms) \<or>
       map u_id (users (snd (create_mem ms d n1 n2 n3))) =
         map u_id (users ms) @ [Some (nextId ms)])) \<and>
   map u_id (users (snd (delete_mem ms x n3))) = map u_id (users ms) \<and>
   map u_id (users (snd (update_mem ms i body n3))) = map u_id (users ms) \<and>
   nextId (snd (update_mem ms i body n3)) = nextId ms \<and>
   nextId (snd (delete_mem ms x n3)) = nextId ms \<and>
   u_id (fst (save_mem ms u n3)) = u_id u \<and>
   (u_id u \<in> set (map u_id (users ms)) \<longrightarrow>
      map u_id (users (snd (save_mem ms u n3))) = map u_id (users ms)) \<and>
   (u_id u \<notin> set (map u_id (users ms)) \<longrightarrow>
      map u_id (users (snd (save_mem ms u n3))) = map u_id (users ms) @ [u_id u]) \<and>
   (distinct (map u_id (users ms)) \<longrightarrow> distinct (map u_id (users (snd (save_mem ms u n3)))))"
proof (intro conjI)
  show "u_id (candidate d n1 n2) = None" by (rule candidate_fields(1))
  show "\<forall>res st'. create st d n1 n2 n3 = Some (res, st') \<longrightarrow>
      (if cr_success res
       then cr_user res =
              Some ((candidate d n1 n2)\<lparr>u_updated_at := n3, u_id := Some (next_rowid st)\<rparr>) \<and>
            map row_id (db_rows st') = map row_id (db_rows st) @ [next_rowid st] \<and>
            (\<forall>r\<in>set (db_rows st). row_id r < next_rowid st)
       else st' = st)"
    using create_ids [of st d n1 n2 n3] by blast
  show "reachable st \<longrightarrow> distinct (map row_id (db_rows st))"
    using reachable_inv [of st] store_invD(1) [of st] by blast
  show "store_inv st \<longrightarrow>
      (\<forall>b st'. delete st x n1 n2 n3 = Some (b, st') \<longrightarrow>
         map row_id (db_rows st') = map row_id (db_rows st)) \<and>
      map row_id (db_rows (snd (update st i body n1 n2 n3))) = map row_id (db_rows st)"
    using delete_keeps_ids [of st x n1 n2 n3] update_frame(2) [of st i body n1 n2 n3] by blast
  show "\<forall>k u' st'. u_id u = Some k \<and> k \<noteq> 0 \<and> save st u n3 = Some (u', st') \<longrightarrow>
      u_id u' = Some k \<and> map row_id (db_rows st') = map row_id (db_rows st)"
    using save_keeps_id [of u _ st n3] by blast
  show "u_id (fst (new_User_mem ms (as_UserData d) n1 n2)) = Some (nextId ms)"
    by (simp add: new_User_mem_create born_fields)
  show "nextId (snd (create_mem ms d n1 n2 n3)) = nextId ms + 1"
    by (rule create_mem_nextId)
  show "reachable_mem ms \<longrightarrow>
      distinct (map u_id (users ms)) \<and>
      (\<forall>v\<in>set (users ms). \<exists>k. u_id v = Some k \<and> k < nextId ms) \<and>
      (map u_id (users (snd (create_mem ms d n1 n2 n3))) = map u_id (users ms) \<or>
       map u_id (users (snd (create_mem ms d n1 n2 n3))) =
         map u_id (users ms) @ [Some (nextId ms)])"
  proof
    assume "reachable_mem ms"
    then have inv: "mem_inv ms" by (rule reachable_mem_inv)
    have "\<forall>v\<in>set (users ms). \<exists>k. u_id v = Some k \<and> k < nextId ms"
      using inv by (auto simp: mem_inv_def list_all_iff split: option.splits)
    then show "distinct (map u_id (users ms)) \<and>
      (\<forall>v\<in>set (users ms). \<exists>k. u_id v = Some k \<and> k < nextId ms) \<and>
      (map u_id (users (snd (create_mem ms d n1 n2 n3))) = map u_id (users ms) \<or>
       map u_id (users (snd (create_mem ms d n1 n2 n3))) =
         map u_id (users ms) @ [Some (nextId ms)])"
      using inv create_mem_ids [OF inv, of d n1 n2 n3] by (simp add: mem_inv_def)
  qed
  show "map u_id (users (snd (delete_mem ms x n3))) = map u_id (users ms)"
    by (rule delete_mem_ids)
  show "map u_id (users (snd (update_mem ms i body n3))) = map u_id (users ms)"
    by (rule update_mem_ids(1))
  show "nextId (snd (update_mem ms i body n3)) = nextId ms"
    by (rule update_mem_ids(2))
  show "nextId (snd (delete_mem ms x n3)) = nextId ms"
    by (rule delete_mem_nextId)
  show "u_id (fst (save_mem ms u n3)) = u_id u"
    by (rule save_mem_ids(1))
  show "u_id u \<in> set (map u_id (users ms)) \<longrightarrow>
      map u_id (users (snd (save_mem ms u n3))) = map u_id (users ms)"
    by (simp add: save_mem_ids(2))
  show "u_id u \<notin> set (map u_id (users ms)) \<longrightarrow>
      map u_id (users (snd (save_mem ms u n3))) = map u_id (users ms) @ [u_id u]"
    by (simp add: save_mem_ids(2))
  show "distinct (map u_id (users ms)) \<longrightarrow> distinct (map u_id (users (snd (save_mem ms u n3))))"
    by (simp add: save_mem_ids(2))
qed

theorem identifier_lifecycle_witness:
  "reachable db_deleted \<and> distinct (map row_id (db_rows db_deleted)) \<and>
   store_inv db_two \<and>
   delete db_two (Fin 2) t1 t1 t1 = Some (True, db_deleted) \<and>
   map row_id (db_rows db_deleted) = map row_id (db_rows db_two) \<and>
   create db_ana bia_input t0 t0 t0 \<noteq> None \<and>
   map row_id (db_rows db_two) = map row_id (db_rows db_ana) @ [next_rowid db_ana] \<and>
   reachable_mem (snd (create_mem empty_mem ana_input t0 t0 t0)) \<and>
   distinct (map u_id (users (snd (create_mem empty_mem ana_input t0 t0 t0)))) \<and>
   map u_id (users (snd (update_mem (snd (create_mem empty_mem ana_input t0 t0 t0)) ''1''
      \<lparr>b_name = TUndefined, b_email = TUndefined, b_age = JUndefined\<rparr> t0))) = [Some 1] \<and>
   map u_id (users (snd (save_mem (snd (create_mem empty_mem ana_input t0 t0 t0))
      ((candidate ana_input t0 t0)\<lparr>u_id := Some 1\<rparr>) t0))) = [Some 1]"
proof -
  have rm: "reachable_mem (snd (create_mem empty_mem ana_input t0 t0 t0))"
    by (rule reach_mem_create [OF reach_mem_empty])
  note a = identifier_lifecycle [of bia_input t0 t0 db_ana t0 "Fin 2" "''1''"
      "\<lparr>b_name = TUndefined, b_email = TUndefined, b_age = JUndefined\<rparr>"
      "(candidate ana_input t0 t0)\<lparr>u_id := Some 1\<rparr>"
      "snd (create_mem empty_mem ana_input t0 t0 t0)"]
  note b = identifier_lifecycle [of bia_input t1 t1 db_deleted t1 "Fin 2" "''1''"
      "\<lparr>b_name = TUndefined, b_email = TUndefined, b_age = JUndefined\<rparr>"
      "candidate ana_input t0 t0" empty_mem]
  note c = identifier_lifecycle [of bia_input t1 t1 db_two t1 "Fin 2" "''1''"
      "\<lparr>b_name = TUndefined, b_email = TUndefined, b_age = JUndefined\<rparr>"
      "candidate ana_input t0 t0" empty_mem]
  have 1: "distinct (map row_id (db_rows db_deleted))"
    using b [THEN conjunct2, THEN conjunct2, THEN conjunct1] reachable_db_deleted by (rule mp)
  have "(\<forall>b st'. delete db_two (Fin 2) t1 t1 t1 = Some (b, st') \<longrightarrow>
           map row_id (db_rows st') = map row_id (db_rows db_two)) \<and>
        map row_id (db_rows (snd (update db_two ''1''
           \<lparr>b_name = TUndefined, b_email = TUndefined, b_age = JUndefined\<rparr> t1 t1 t1))) =
          map row_id (db_rows db_two)"
    using c [THEN conjunct2, THEN conjunct2, THEN conjunct2, THEN conjunct1] inv_db_two by (rule mp)
  then have 2: "map row_id (db_rows db_deleted) = map row_id (db_rows db_two)"
    using delete_bia by blast
  have "\<forall>res st'. create db_ana bia_input t0 t0 t0 = Some (res, st') \<longrightarrow>
      (if cr_success res
       then cr_user res =
              Some ((candidate bia_input t0 t0)\<lparr>u_updated_at := t0, u_id := Some (next_rowid db_ana)\<rparr>) \<and>
            map row_id (db_rows st') = map row_id (db_rows db_ana) @ [next_rowid db_ana] \<and>
            (\<forall>r\<in>set (db_rows db_ana). row_id r < next_rowid db_ana)
       else st' = db_ana)"
    by (rule a [THEN conjunct2, THEN conjunct1])
  from this [rule_format, OF create_bia]
  have 3: "map row_id (db_rows db_two) = map row_id (db_rows db_ana) @ [next_rowid db_ana]"
    by simp
  have "distinct (map u_id (users (snd (create_mem empty_mem ana_input t0 t0 t0)))) \<and>
      (\<forall>v\<in>set (users (snd (create_mem empty_mem ana_input t0 t0 t0))).
          \<exists>k. u_id v = Some k \<and> k < nextId (snd (create_mem empty_mem ana_input t0 t0 t0))) \<and>
      (map u_id (users (snd (create_mem (snd (create_mem empty_mem ana_input t0 t0 t0)) bia_input t0 t0 t0))) =
         map u_id (users (snd (create_mem empty_mem ana_input t0 t0 t0))) \<or>
       map u_id (users (snd (create_mem (snd (create_mem empty_mem ana_input t0 t0 t0)) bia_input t0 t0 t0))) =
         map u_id (users (snd (create_mem empty_mem ana_input t0 t0 t0))) @
           [Some (nextId (snd (create_mem empty_mem ana_input t0 t0 t0)))])"
    using a [THEN conjunct2, THEN conjunct2, THEN conjunct2, THEN conjunct2, THEN conjunct2,
        THEN conjunct2, THEN conjunct2, THEN conjunct1] rm by (rule mp)
  then have 4: "distinct (map u_id (users (snd (create_mem empty_mem ana_input t0 t0 t0))))"
    by (rule conjunct1)
  have 5: "create db_ana bia_input t0 t0 t0 \<noteq> None" by (simp add: create_bia)
  have ids: "map u_id (users (snd (create_mem empty_mem ana_input t0 t0 t0))) = [Some 1]"
    by (simp add: eval_defs trace_eval_defs)
  have "map u_id (users (snd (update_mem (snd (create_mem empty_mem ana_input t0 t0 t0)) ''1''
      \<lparr>b_name = TUndefined, b_email = TUndefined, b_age = JUndefined\<rparr> t0))) =
        map u_id (users (snd (create_mem empty_mem ana_input t0 t0 t0)))"
    by (rule a [THEN conjunct2, THEN conjunct2, THEN conjunct2, THEN conjunct2, THEN conjunct2,
        THEN conjunct2, THEN conjunct2, THEN conjunct2, THEN conjunct2, THEN conjunct1])
  then have 6: "map u_id (users (snd (update_mem (snd (create_mem empty_mem ana_input t0 t0 t0)) ''1''
      \<lparr>b_name = TUndefined, b_email = TUndefined, b_age = JUndefined\<rparr> t0))) = [Some 1]"
    by (simp only: ids)
  have stored: "u_id ((candidate ana_input t0 t0)\<lparr>u_id := Some 1\<rparr>) \<in>
      set (map u_id (users (snd (create_mem empty_mem ana_input t0 t0 t0))))"
    by (simp add: ids)
  have "map u_id (users (snd (save_mem (snd (create_mem empty_mem ana_input t0 t0 t0))
      ((candidate ana_input t0 t0)\<lparr>u_id := Some 1\<rparr>) t0))) =
        map u_id (users (snd (create_mem empty_mem ana_input t0 t0 t0)))"
    using a [THEN conjunct2, THEN conjunct2, THEN conjunct2, THEN conjunct2, THEN conjunct2,
        THEN conjunct2, THEN conjunct2, THEN conjunct2, THEN conjunct2, THEN conjunct2,
        THEN conjunct2, THEN conjunct2, THEN conjunct2, THEN conjunct1] stored by (rule mp)
  then have 7: "map u_id (users (snd (save_mem (snd (create_mem empty_mem ana_input t0 t0 t0))
      ((candidate ana_input t0 t0)\<lparr>u_id := Some 1\<rparr>) t0))) = [Some 1]"
    by (simp only: ids)
  show ?thesis
    by (intro conjI reachable_db_deleted 1 inv_db_two delete_bia 2 5 3 rm 4 6 7)
qed

text \<open>
  C6 as stated fails in the in-memory variant: a record that validation rejects, and that
  is never persisted, has the identifier 1 from its construction on.
\<close>

theorem identifier_counterexample:
  "u_id (fst (new_User_mem empty_mem (as_UserData (ana_input\<lparr>in_name := ''A''\<rparr>)) t0 t0)) = Some 1 \<and>
   create_mem empty_mem (ana_input\<lparr>in_name := ''A''\<rparr>) t0 t0 t0 =
     (\<lparr>cr_success = False, cr_user = None, cr_errors = Some [NameTooShort]\<rparr>,
      \<lparr>users = [], nextId = 2\<rparr>)"
  by (simp add: eval_defs trace_eval_defs)

text \<open>
  C7 at the input \<open>{name: "Ana Silva", email: "ana@test.com", age: NaN}\<close> on the empty
  database: \<open>create\<close> succeeds and returns a record whose age is NaN, and the table
  holds NULL; \<open>findById\<close> of the returned identifier yields a record whose age is
  \<open>null\<close>, so the two public views differ in the age.
\<close>

theorem create_find_nan:
  "create empty_db (ana_input\<lparr>in_age := Some NaN\<rparr>) t0 t0 t0 =
     Some (\<lparr>cr_success = True,
            cr_user = Some \<lparr>u_id = Some 1, u_name = ''Ana Silva'', u_email = ''ana@test.com'',
              u_password = None, u_age = Some NaN, u_is_active = True,
              u_created_at = t0, u_updated_at = t0\<rparr>,
            cr_errors = None\<rparr>,
           db_ana\<lparr>db_rows := [ana_row\<lparr>row_age := None\<rparr>]\<rparr>) \<and>
   findById (db_ana\<lparr>db_rows := [ana_row\<lparr>row_age := None\<rparr>]\<rparr>) (Fin 1) t1 t1 =
     Some \<lparr>u_id = Some 1, u_name = ''Ana Silva'', u_email = ''ana@test.com'',
            u_password = None, u_age = None, u_is_active = True,
            u_created_at = t0, u_updated_at = t0\<rparr>"
  by (simp add: eval_defs)

text \<open>
  C8: the public view of a record is made of exactly its identifier, name, email, age,
  active flag and two timestamps: it does not depend on the password, and two records
  have the same public view exactly when they agree on these seven fields. The listing
  view is made of exactly name, email and age: it depends on no other field, and two
  records have the same listing view exactly when they agree on these three.
\<close>

theorem views_fields:
  "toPublicJSON (u\<lparr>u_password := p\<rparr>) = toPublicJSON u \<and>
   (toPublicJSON u = toPublicJSON v \<longleftrightarrow>
      u_id u = u_id v \<and> u_name u = u_name v \<and> u_email u = u_email v \<and> u_age u = u_age v \<and>
      u_is_active u = u_is_active v \<and> u_created_at u = u_created_at v \<and>
      u_updated_at u = u_updated_at v) \<and>
   toListJSON (u\<lparr>u_id := i, u_password := p, u_is_active := a, u_created_at := c,
                u_updated_at := t\<rparr>) = toListJSON u \<and>
   (toListJSON u = toListJSON v \<longleftrightarrow>
      u_name u = u_name v \<and> u_email u = u_email v \<and> u_age u = u_age v)"
  by (auto simp: toPublicJSON_def toListJSON_def)

text \<open>
  C9, as amended: starting from the empty stores, the SQLite-backed model and the
  in-memory model give the same results, with the same identifiers, names, emails, ages
  and active flags (timestamps aside, whatever the clocks read), on every sequence of
  \<open>create\<close>, \<open>findAll\<close>, \<open>findById\<close>, \<open>findByEmail\<close>, \<open>emailExists\<close>, \<open>delete\<close> and
  \<open>count\<close> calls in which no age is \<open>0\<close> or NaN, no email has a capital letter outside
  ASCII, and no \<open>create\<close> succeeds after a \<open>create\<close> was rejected.
\<close>

theorem variants_agree:
  assumes "admissible clk 0 empty_db False cs"
  shows "run_sql clk 0 empty_db cs = run_mem clk' 0 empty_mem cs"
proof -
  have run: "run_sql clk n st cs = run_mem clk' n ms cs"
    if "admissible clk n st rej cs" and "sim rej st ms" for n st ms rej
    using that
  proof (induction cs arbitrary: n st ms rej)
    case Nil
    show ?case by simp
  next
    case (Cons c cs)
    from Cons.prems(1) have ok: "call_ok c"
      and adm: "\<not> (is_create c \<and> succeeded (fst (step_sql (clk n) st c)) \<and> rej)"
      and rest: "admissible clk (Suc n) (snd (step_sql (clk n) st c))
          (rej \<or> (is_create c \<and> \<not> succeeded (fst (step_sql (clk n) st c)))) cs"
      by simp_all
    note step = sim_step [OF Cons.prems(2) ok adm, of "clk' n"]
    have o: "fst (step_sql (clk n) st c) = fst (step_mem (clk' n) ms c)"
      by (rule conjunct1 [OF step])
    have s': "sim (rej \<or> (is_create c \<and> \<not> succeeded (fst (step_sql (clk n) st c))))
               (snd (step_sql (clk n) st c)) (snd (step_mem (clk' n) ms c))"
      by (rule conjunct2 [OF step])
    from Cons.IH [OF rest s'] o show ?case by simp
  qed
  from run [OF assms sim_empty] show ?thesis .
qed

theorem variants_agree_witness:
  "admissible (\<lambda>n j. t0) 0 empty_db False sample_calls \<and>
   run_mem (\<lambda>n j. t1) 0 empty_mem sample_calls =
     [Created True (Some (Some 1, ''Ana Silva'', ''ana@test.com'', Some (Fin 30), True)) None,
      Created True (Some (Some 2, ''Bia Souza'', ''Bia@Test.com'', None, True)) None,
      Found (Some (Some 2, ''Bia Souza'', ''Bia@Test.com'', None, True)),
      Answer True,
      Listed [(Some 1, ''Ana Silva'', ''ana@test.com'', Some (Fin 30), True)],
      Counted 1,
      Created False None (Some [EmailTaken])]"
  using variants_agree [OF sample_admissible, of "\<lambda>n j. t1"] sample_admissible
  by (simp add: sample_run)

text \<open>
  C9 as stated fails on both edge inputs it names. For the age \<open>0\<close> the SQLite-backed
  \<open>create\<close> returns the age \<open>0\<close> and the in-memory one \<open>null\<close> (\<open>data.age || null\<close>).
  After a \<open>create\<close> that validation rejects, the next record gets the identifier 1 from
  the table and 2 from the in-memory counter, which the rejected record's constructor has
  advanced.
\<close>

theorem variants_differ_counterexample:
  "run_sql (\<lambda>n j. t0) 0 empty_db [Create (ana_input\<lparr>in_age := Some (Fin 0)\<rparr>)] =
     [Created True (Some (Some 1, ''Ana Silva'', ''ana@test.com'', Some (Fin 0), True)) None] \<and>
   run_mem (\<lambda>n j. t0) 0 empty_mem [Create (ana_input\<lparr>in_age := Some (Fin 0)\<rparr>)] =
     [Created True (Some (Some 1, ''Ana Silva'', ''ana@test.com'', None, True)) None] \<and>
   run_sql (\<lambda>n j. t0) 0 empty_db [Create (ana_input\<lparr>in_name := ''A''\<rparr>), Create ana_input] =
     [Created False None (Some [NameTooShort]),
      Created True (Some (Some 1, ''Ana Silva'', ''ana@test.com'', Some (Fin 30), True)) None] \<and>
   run_mem (\<lambda>n j. t0) 0 empty_mem [Create (ana_input\<lparr>in_name := ''A''\<rparr>), Create ana_input] =
     [Created False None (Some [NameTooShort]),
      Created True (Some (Some 2, ''Ana Silva'', ''ana@test.com'', Some (Fin 30), True)) None]"
  by (simp add: eval_defs trace_eval_defs)

text \<open>
  C10, as amended: on a database that satisfies \<^const>\<open>store_inv\<close>, as every database the
  operations reach does, the controller's update treats a \<open>name\<close> or \<open>email\<close> that is falsy
  (the empty string, \<open>null\<close>, \<open>undefined\<close>) as absent: the outcome is the one of the body
  without the key, and no stored name (email) changes. With both falsy and a stored record
  that is valid, the update succeeds, so no validation error is raised for them. The age
  is applied whenever the key is defined: the record that is validated and saved has
  \<open>parseInt(age)\<close> as its age; a successful response carries that value, and the row of
  the record stores it, as NULL when it is NaN; without the key no stored age changes.
  For \<open>age: null\<close> the value is NaN, which passes validation exactly as a missing age
  does: the record is saved, its row taking NULL as age and the new \<open>updated_at\<close>. An
  update that does not succeed changes nothing. Whatever the outcome, no row's id,
  password, active flag or \<open>created_at\<close> changes, the rows of other ids do not change at
  all, and the rowid counter stays.
\<close>

theorem update_fields:
  assumes "store_inv st"
  shows
    "(\<not> truthy_text (b_name body) \<longrightarrow>
        update st i body n1 n2 n3 = update st i (body\<lparr>b_name := TUndefined\<rparr>) n1 n2 n3 \<and>
        map row_name (db_rows (snd (update st i body n1 n2 n3))) = map row_name (db_rows st)) \<and>
     (\<not> truthy_text (b_email body) \<longrightarrow>
        update st i body n1 n2 n3 = update st i (body\<lparr>b_email := TUndefined\<rparr>) n1 n2 n3 \<and>
        map row_email (db_rows (snd (update st i body n1 n2 n3))) = map row_email (db_rows st)) \<and>
     (\<forall>user. findById st (parseInt_str i) n1 n2 = Some user \<and> valid (validate user) \<and>
         \<not> truthy_text (b_name body) \<and> \<not> truthy_text (b_email body) \<longrightarrow>
         (b_age body = JUndefined \<longrightarrow>
            update st i body n1 n2 n3 =
              (Ok200 (toPublicJSON (user\<lparr>u_updated_at := n3\<rparr>)),
               st\<lparr>db_rows := map (write_row (parseInt_str i) user n3) (db_rows st)\<rparr>)) \<and>
         (b_age body = JNull \<longrightarrow>
            update st i body n1 n2 n3 =
              (Ok200 (toPublicJSON (user\<lparr>u_age := Some NaN, u_updated_at := n3\<rparr>)),
               st\<lparr>db_rows := map (write_row (parseInt_str i) (user\<lparr>u_age := Some NaN\<rparr>) n3)
                                 (db_rows st)\<rparr>))) \<and>
     (b_age body \<noteq> JUndefined \<longrightarrow>
        (\<forall>p. fst (update st i body n1 n2 n3) = Ok200 p \<longrightarrow>
           pub_age p = Some (parseInt (b_age body)) \<and>
           (\<exists>r\<in>set (db_rows (snd (update st i body n1 n2 n3))).
              num_of_int (row_id r) = parseInt_str i) \<and>
           (\<forall>r\<in>set (db_rows (snd (update st i body n1 n2 n3))).
              num_of_int (row_id r) = parseInt_str i \<longrightarrow>
              row_age r = bind_num (Some (parseInt (b_age body)))))) \<and>
     (b_age body = JUndefined \<longrightarrow>
        map row_age (db_rows (snd (update st i body n1 n2 n3))) = map row_age (db_rows st)) \<and>
     (\<forall>user. findById st (parseInt_str i) n1 n2 = Some user \<longrightarrow>
        update st i body n1 n2 n3 =
          (if email_conflict st user body then (Conflict400 EmailTaken, st)
           else if \<not> valid (validate (apply_body user body))
           then (Invalid400 (errors (validate (apply_body user body))), st)
           else (Ok200 (toPublicJSON ((apply_body user body)\<lparr>u_updated_at := n3\<rparr>)),
                 st\<lparr>db_rows := map (write_row (parseInt_str i) (apply_body user body) n3)
                                   (db_rows st)\<rparr>))) \<and>
     u_age (apply_body u body) =
       (if b_age body \<noteq> JUndefined then Some (parseInt (b_age body)) else u_age u) \<and>
     row_age (write_row x u now r) =
       (if num_of_int (row_id r) = x then bind_num (u_age u) else row_age r) \<and>
     ((\<forall>p. fst (update st i body n1 n2 n3) \<noteq> Ok200 p) \<longrightarrow>
        snd (update st i body n1 n2 n3) = st) \<and>
     bind_num (Some NaN) = None \<and>
     (a \<noteq> NaN \<longrightarrow> bind_num (Some a) = Some a) \<and>
     parseInt JNull = NaN \<and>
     valid (validate (u\<lparr>u_age := Some NaN\<rparr>)) = valid (validate (u\<lparr>u_age := None\<rparr>)) \<and>
     row_age (write_row x (u\<lparr>u_age := Some NaN\<rparr>) now r) =
       (if num_of_int (row_id r) = x then None else row_age r) \<and>
     db_seq (snd (update st i body n1 n2 n3)) = db_seq st \<and>
     map row_id (db_rows (snd (update st i body n1 n2 n3))) = map row_id (db_rows st) \<and>
     map row_password (db_rows (snd (update st i body n1 n2 n3))) = map row_password (db_rows st) \<and>
     map row_is_active (db_rows (snd (update st i body n1 n2 n3))) = map row_is_active (db_rows st) \<and>
     map row_created_at (db_rows (snd (update st i body n1 n2 n3))) = map row_created_at (db_rows st) \<and>
     (\<forall>k<length (db_rows st). num_of_int (row_id (db_rows st ! k)) \<noteq> parseInt_str i \<longrightarrow>
        db_rows (snd (update st i body n1 n2 n3)) ! k = db_rows st ! k)"
proof (intro conjI)
  show "\<not> truthy_text (b_name body) \<longrightarrow>
        update st i body n1 n2 n3 = update st i (body\<lparr>b_name := TUndefined\<rparr>) n1 n2 n3 \<and>
        map row_name (db_rows (snd (update st i body n1 n2 n3))) = map row_name (db_rows st)"
    using update_falsy_name [of body st i n1 n2 n3] update_keeps_name [OF assms, of body i n1 n2 n3]
    by blast
  show "\<not> truthy_text (b_email body) \<longrightarrow>
        update st i body n1 n2 n3 = update st i (body\<lparr>b_email := TUndefined\<rparr>) n1 n2 n3 \<and>
        map row_email (db_rows (snd (update st i body n1 n2 n3))) = map row_email (db_rows st)"
    using update_falsy_email [of body st i n1 n2 n3] update_keeps_email [OF assms, of body i n1 n2 n3]
    by blast
  show "\<forall>user. findById st (parseInt_str i) n1 n2 = Some user \<and> valid (validate user) \<and>
         \<not> truthy_text (b_name body) \<and> \<not> truthy_text (b_email body) \<longrightarrow>
         (b_age body = JUndefined \<longrightarrow>
            update st i body n1 n2 n3 =
              (Ok200 (toPublicJSON (user\<lparr>u_updated_at := n3\<rparr>)),
               st\<lparr>db_rows := map (write_row (parseInt_str i) user n3) (db_rows st)\<rparr>)) \<and>
         (b_age body = JNull \<longrightarrow>
            update st i body n1 n2 n3 =
              (Ok200 (toPublicJSON (user\<lparr>u_age := Some NaN, u_updated_at := n3\<rparr>)),
               st\<lparr>db_rows := map (write_row (parseInt_str i) (user\<lparr>u_age := Some NaN\<rparr>) n3)
                                 (db_rows st)\<rparr>))"
    using update_all_falsy [OF assms, of i n1 n2 _ body n3] by blast
  show "b_age body \<noteq> JUndefined \<longrightarrow>
        (\<forall>p. fst (update st i body n1 n2 n3) = Ok200 p \<longrightarrow>
           pub_age p = Some (parseInt (b_age body)) \<and>
           (\<exists>r\<in>set (db_rows (snd (update st i body n1 n2 n3))).
              num_of_int (row_id r) = parseInt_str i) \<and>
           (\<forall>r\<in>set (db_rows (snd (update st i body n1 n2 n3))).
              num_of_int (row_id r) = parseInt_str i \<longrightarrow>
              row_age r = bind_num (Some (parseInt (b_age body)))))"
  proof (intro impI allI conjI)
    fix p assume a: "b_age body \<noteq> JUndefined" and ok: "fst (update st i body n1 n2 n3) = Ok200 p"
    show "pub_age p = Some (parseInt (b_age body))"
      by (rule update_age_applied [OF assms a ok])
    show "\<exists>r\<in>set (db_rows (snd (update st i body n1 n2 n3))).
              num_of_int (row_id r) = parseInt_str i"
      by (rule update_age_stored(2) [OF assms a ok])
    show "\<forall>r\<in>set (db_rows (snd (update st i body n1 n2 n3))).
              num_of_int (row_id r) = parseInt_str i \<longrightarrow>
              row_age r = bind_num (Some (parseInt (b_age body)))"
      by (rule update_age_stored(1) [OF assms a ok])
  qed
  show "b_age body = JUndefined \<longrightarrow>
        map row_age (db_rows (snd (update st i body n1 n2 n3))) = map row_age (db_rows st)"
    using update_keeps_age [OF assms, of body i n1 n2 n3] by blast
  show "\<forall>user. findById st (parseInt_str i) n1 n2 = Some user \<longrightarrow>
        update st i body n1 n2 n3 =
          (if email_conflict st user body then (Conflict400 EmailTaken, st)
           else if \<not> valid (validate (apply_body user body))
           then (Invalid400 (errors (validate (apply_body user body))), st)
           else (Ok200 (toPublicJSON ((apply_body user body)\<lparr>u_updated_at := n3\<rparr>)),
                 st\<lparr>db_rows := map (write_row (parseInt_str i) (apply_body user body) n3)
                                   (db_rows st)\<rparr>))"
    using update_result [OF assms, of i n1 n2 _ body n3] by blast
  show "u_age (apply_body u body) =
       (if b_age body \<noteq> JUndefined then Some (parseInt (b_age body)) else u_age u)"
    by (rule apply_body_age)
  show "row_age (write_row x u now r) =
       (if num_of_int (row_id r) = x then bind_num (u_age u) else row_age r)"
    by (rule write_row_stores)
  show "(\<forall>p. fst (update st i body n1 n2 n3) \<noteq> Ok200 p) \<longrightarrow>
        snd (update st i body n1 n2 n3) = st"
    using update_refused [OF assms, of i body n1 n2 n3] by blast
  show "bind_num (Some NaN) = None" by (rule bind_num_cases(1))
  show "a \<noteq> NaN \<longrightarrow> bind_num (Some a) = Some a" by (simp add: bind_num_cases(2))
  show "parseInt JNull = NaN" by simp
  show "valid (validate (u\<lparr>u_age := Some NaN\<rparr>)) = valid (validate (u\<lparr>u_age := None\<rparr>))"
    by (rule validate_NaN_like_none)
  show "row_age (write_row x (u\<lparr>u_age := Some NaN\<rparr>) now r) =
       (if num_of_int (row_id r) = x then None else row_age r)"
    by (rule write_row_NaN)
qed (rule update_frame [OF assms])+

theorem update_fields_witness:
  "store_inv db_two \<and>
   update db_two ''1'' \<lparr>b_name = TStr [], b_email = TNull, b_age = JNull\<rparr> t0 t0 t1 =
     (Ok200 \<lparr>pub_id = Some 1, pub_name = ''Ana Silva'', pub_email = ''ana@test.com'',
              pub_age = Some NaN, pub_is_active = True, pub_created_at = t0,
              pub_updated_at = t1\<rparr>,
      db_two\<lparr>db_rows := [ana_row\<lparr>row_age := None, row_updated_at := t1\<rparr>, bia_row]\<rparr>) \<and>
   update db_two ''1'' \<lparr>b_name = TNull, b_email = TStr [], b_age = JNum (Fin (10 ^ 21))\<rparr> t0 t0 t1 =
     (Ok200 \<lparr>pub_id = Some 1, pub_name = ''Ana Silva'', pub_email = ''ana@test.com'',
              pub_age = Some (Fin 1), pub_is_active = True, pub_created_at = t0,
              pub_updated_at = t1\<rparr>,
      db_two\<lparr>db_rows := [ana_row\<lparr>row_age := Some (Fin 1), row_updated_at := t1\<rparr>, bia_row]\<rparr>) \<and>
   update db_two ''1'' \<lparr>b_name = TNull, b_email = TStr [], b_age = JStr ''200''\<rparr> t0 t0 t1 =
     (Invalid400 [AgeRange], db_two)"
proof -
  let ?u = "\<lparr>u_id = Some 1, u_name = ''Ana Silva'', u_email = ''ana@test.com'',
          u_password = None, u_age = Some (Fin 30), u_is_active = True,
          u_created_at = t0, u_updated_at = t0\<rparr>"
  let ?b = "\<lparr>b_name = TStr [], b_email = TNull, b_age = JNull\<rparr>"
  have h: "valid (validate ?u)" "\<not> truthy_text (b_name ?b)" "\<not> truthy_text (b_email ?b)"
    "b_age ?b = JNull"
    by (simp_all add: eval_defs)
  have w: "map (write_row (parseInt_str ''1'') (?u\<lparr>u_age := Some NaN\<rparr>) t1) (db_rows db_two)
           = [ana_row\<lparr>row_age := None, row_updated_at := t1\<rparr>, bia_row]"
    by (simp add: write_row_def eval_defs update_eval_defs)
  have p: "toPublicJSON (?u\<lparr>u_age := Some NaN, u_updated_at := t1\<rparr>) =
     \<lparr>pub_id = Some 1, pub_name = ''Ana Silva'', pub_email = ''ana@test.com'',
              pub_age = Some NaN, pub_is_active = True, pub_created_at = t0,
              pub_updated_at = t1\<rparr>"
    by (simp add: toPublicJSON_def)
  from update_fields [OF inv_db_two, of ?b "''1''" t0 t0 t1] find_ana h
  have "update db_two ''1'' ?b t0 t0 t1 =
     (Ok200 (toPublicJSON (?u\<lparr>u_age := Some NaN, u_updated_at := t1\<rparr>)),
      db_two\<lparr>db_rows := map (write_row (parseInt_str ''1'') (?u\<lparr>u_age := Some NaN\<rparr>) t1)
                                 (db_rows db_two)\<rparr>)"
    by blast
  then have first: "update db_two ''1'' ?b t0 t0 t1 =
     (Ok200 \<lparr>pub_id = Some 1, pub_name = ''Ana Silva'', pub_email = ''ana@test.com'',
              pub_age = Some NaN, pub_is_active = True, pub_created_at = t0,
              pub_updated_at = t1\<rparr>,
      db_two\<lparr>db_rows := [ana_row\<lparr>row_age := None, row_updated_at := t1\<rparr>, bia_row]\<rparr>)"
    unfolding w p by simp
  let ?c = "\<lparr>b_name = TNull, b_email = TStr [], b_age = JNum (Fin (10 ^ 21))\<rparr>"
  from update_fields [OF inv_db_two, of ?c "''1''" t0 t0 t1] find_ana
  have "update db_two ''1'' ?c t0 t0 t1 =
          (if email_conflict db_two ?u ?c then (Conflict400 EmailTaken, db_two)
           else if \<not> valid (validate (apply_body ?u ?c))
           then (Invalid400 (errors (validate (apply_body ?u ?c))), db_two)
           else (Ok200 (toPublicJSON ((apply_body ?u ?c)\<lparr>u_updated_at := t1\<rparr>)),
                 db_two\<lparr>db_rows := map (write_row (parseInt_str ''1'') (apply_body ?u ?c) t1)
                                   (db_rows db_two)\<rparr>))"
    by blast
  then have second: "update db_two ''1'' ?c t0 t0 t1 =
     (Ok200 \<lparr>pub_id = Some 1, pub_name = ''Ana Silva'', pub_email = ''ana@test.com'',
              pub_age = Some (Fin 1), pub_is_active = True, pub_created_at = t0,
              pub_updated_at = t1\<rparr>,
      db_two\<lparr>db_rows := [ana_row\<lparr>row_age := Some (Fin 1), row_updated_at := t1\<rparr>, bia_row]\<rparr>)"
    by (simp add: email_conflict_def apply_body_def write_row_def toPublicJSON_def
        parseInt_str_1 parseInt_num_1e21 eval_defs)
  let ?d = "\<lparr>b_name = TNull, b_email = TStr [], b_age = JStr ''200''\<rparr>"
  from update_fields [OF inv_db_two, of ?d "''1''" t0 t0 t1] find_ana
  have "update db_two ''1'' ?d t0 t0 t1 =
          (if email_conflict db_two ?u ?d then (Conflict400 EmailTaken, db_two)
           else if \<not> valid (validate (apply_body ?u ?d))
           then (Invalid400 (errors (validate (apply_body ?u ?d))), db_two)
           else (Ok200 (toPublicJSON ((apply_body ?u ?d)\<lparr>u_updated_at := t1\<rparr>)),
                 db_two\<lparr>db_rows := map (write_row (parseInt_str ''1'') (apply_body ?u ?d) t1)
                                   (db_rows db_two)\<rparr>))"
    by blast
  then have third: "update db_two ''1'' ?d t0 t0 t1 = (Invalid400 [AgeRange], db_two)"
    by (simp add: email_conflict_def apply_body_def parseInt_str_200 eval_defs)
  show ?thesis using inv_db_two first second third by (intro conjI)
qed

text \<open>
  C10 as stated fails where it says that the not-a-number value is persisted: after the
  update with \<open>age: null\<close> the response carries NaN, but the row's age is NULL, and reading
  the record back gives the age \<open>null\<close>.
\<close>

theorem update_null_age_counterexample:
  "update db_two ''1'' \<lparr>b_name = TUndefined, b_email = TUndefined, b_age = JNull\<rparr> t0 t0 t1 =
     (Ok200 \<lparr>pub_id = Some 1, pub_name = ''Ana Silva'', pub_email = ''ana@test.com'',
              pub_age = Some NaN, pub_is_active = True, pub_created_at = t0,
              pub_updated_at = t1\<rparr>,
      db_two\<lparr>db_rows := [ana_row\<lparr>row_age := None, row_updated_at := t1\<rparr>, bia_row]\<rparr>) \<and>
   map row_age (db_rows (db_two\<lparr>db_rows := [ana_row\<lparr>row_age := None, row_updated_at := t1\<rparr>,
      bia_row]\<rparr>)) = [None, None] \<and>
   findById (db_two\<lparr>db_rows := [ana_row\<lparr>row_age := None, row_updated_at := t1\<rparr>, bia_row]\<rparr>)
      (Fin 1) t1 t1 =
     Some \<lparr>u_id = Some 1, u_name = ''Ana Silva'', u_email = ''ana@test.com'',
            u_password = None, u_age = None, u_is_active = True,
            u_created_at = t0, u_updated_at = t1\<rparr>"
  by (simp add: eval_defs update_eval_defs)


end
